theory Spec2Isabelle
  imports Main "HOL-Library.Word"
begin

section \<open>Data model of the eureka client (src/eureka/client.go)\<close>

text \<open>
  The rotation cursor \<open>pickServerUrlIdx\<close> is an \<open>atomic.Int32\<close>: a 32-bit two's
  complement integer whose \<open>Inc\<close> wraps around. Go's \<open>int(x)\<close> of an \<open>int32\<close> is
  the signed reading \<open>sint\<close>.
\<close>

type_synonym int32 = "32 word"

text \<open>Run-time panics of the Go code that the client can raise.\<close>

datatype panic = NilPointerDereference | IndexOutOfRange | NonPositiveTickerInterval

text \<open>
  Modelled from the spec: the status constants \<open>STATUS_*\<close> are declared outside
  \<open>client.go\<close>; the spec lists the enumeration STARTING, UP, DOWN, OUT_OF_SERVICE, UNKNOWN.
\<close>

datatype status = STATUS_UP | STATUS_DOWN | STATUS_STARTING | STATUS_OUT_OF_SERVICE | STATUS_UNKNOWN

text \<open>\<open>positiveInt{Value: port, Enabled: "true"}\<close>; a Go \<open>int\<close> that is only stored.\<close>

record positiveInt =
  Value :: int
  Enabled :: string

text \<open>
  Modelled from the spec: \<open>InstanceVo\<close> is declared outside \<open>client.go\<close>. The record
  has the fields the client reads or writes.
\<close>

record InstanceVo =
  App :: string
  InstanceId :: string
  Status :: status
  Port :: positiveInt
  VipAddress :: string
  SecureVipAddress :: string

text \<open>
  Modelled from the spec: \<open>ApplicationVo\<close> is declared outside \<open>client.go\<close>; the client
  reads only \<open>Name\<close>, everything else is an opaque payload.
\<close>

record ApplicationVo =
  Name :: string
  Payload :: string

text \<open>
  Modelled from the spec: \<open>EurekaClientConfig\<close> is declared outside \<open>client.go\<close>. The
  record has the fields the client reads.
\<close>

record EurekaClientConfig =
  Region :: string
  UseDnsForFetchingServiceUrls :: bool
  AutoUpdateDnsServiceUrls :: bool
  AutoUpdateDnsServiceUrlsIntervals :: int
  RegisterWithEureka :: bool
  HeartbeatIntervals :: int
  FetchRegistry :: bool
  RegistryFetchIntervalSeconds :: int

text \<open>
  \<open>type Client struct\<close>. The pointers \<open>config\<close> and \<open>instance\<close> are \<open>None\<close> when nil.
  The lock and the signal channel carry no data of their own.
\<close>

record Client =
  config :: "EurekaClientConfig option"
  instance_vo :: "InstanceVo option"
  serviceUrls :: "string list"
  registryApps :: "string \<rightharpoonup> ApplicationVo"
  pickServerUrlIdx :: int32

text \<open>\<open>var DefaultClient = new(Client)\<close>: every field has its zero value.\<close>

definition DefaultClient :: Client where
  "DefaultClient = \<lparr>config = None, instance_vo = None, serviceUrls = [],
     registryApps = Map.empty, pickServerUrlIdx = 0\<rparr>"

text \<open>
  What the client does, in the order it does it: its calls of the collaborators, its
  log lines (by format string), sleeps, increments of the cursor, the exit. \<open>EvGo f\<close>
  is the launch of a goroutine running \<open>f\<close>, \<open>EvCall f\<close> the entry into \<open>f\<close>.
\<close>

datatype event =
    EvLog string
  | EvSleep int
  | EvResolve string
  | EvRegister string
  | EvUpdateStatus string
  | EvHeartbeat string bool
  | EvDeRegister string
  | EvQuery string
  | EvInc
  | EvCall string
  | EvGo string
  | EvExit int

text \<open>
  The running system: the client, the number of collaborator calls made so far, and
  the events so far (oldest first).
\<close>

record sys = Client +
  calls :: nat
  trace :: "event list"

text \<open>
  The collaborators, none of them in \<open>client.go\<close>, are parameters. An answer may
  depend on how many collaborator calls came before (the first argument), so that an
  endpoint can fail once and succeed later. A Go \<open>error\<close> is its message.
\<close>

record env =
  DefaultInstanceVo :: InstanceVo
  ToLower :: "string \<Rightarrow> string"
  GetAvailabilityZones :: "EurekaClientConfig \<Rightarrow> string \<Rightarrow> string list"
  GetDiscoveryServiceUrls :: "nat \<Rightarrow> EurekaClientConfig \<Rightarrow> string \<Rightarrow> string + string list"
  RegisterInstanceWithVo :: "nat \<Rightarrow> string \<Rightarrow> InstanceVo \<Rightarrow> string + string"
  UpdateInstanceStatus :: "nat \<Rightarrow> string \<Rightarrow> string \<Rightarrow> string \<Rightarrow> status \<Rightarrow> string option"
  SendHeartbeat :: "nat \<Rightarrow> string \<Rightarrow> string \<Rightarrow> string \<Rightarrow> string option"
  DeRegisterInstance_api :: "nat \<Rightarrow> string \<Rightarrow> string \<Rightarrow> string \<Rightarrow> string option"
  QueryAllInstances :: "nat \<Rightarrow> string \<Rightarrow> string + ApplicationVo list"

definition emit :: "event list \<Rightarrow> sys \<Rightarrow> sys" where
  "emit evs s = s\<lparr>trace := trace s @ evs\<rparr>"

definition called :: "sys \<Rightarrow> sys" where
  "called s = s\<lparr>calls := Suc (calls s)\<rparr>"

definition DEFAULT_SLEEP_INTERVALS :: int where
  "DEFAULT_SLEEP_INTERVALS = 3"

section \<open>Configuration and registration of the instance descriptor\<close>

definition Config :: "EurekaClientConfig \<Rightarrow> 'a Client_scheme \<Rightarrow> 'a Client_scheme" where
  "Config cfg t = t\<lparr>config := Some cfg\<rparr>"

definition Register :: "env \<Rightarrow> string \<Rightarrow> int \<Rightarrow> 'a Client_scheme \<Rightarrow> 'a Client_scheme" where
  "Register E appId port t =
     (let vo = DefaultInstanceVo E;
          vo = vo\<lparr>App := appId\<rparr>;
          vo = vo\<lparr>Status := STATUS_STARTING\<rparr>;
          vo = vo\<lparr>Port := \<lparr>Value = port, Enabled = ''true''\<rparr>\<rparr>;
          vo = vo\<lparr>VipAddress := ToLower E appId\<rparr>;
          vo = vo\<lparr>SecureVipAddress := ToLower E appId\<rparr>
      in t\<lparr>instance_vo := Some vo\<rparr>)"

definition RegisterVo :: "InstanceVo option \<Rightarrow> 'a Client_scheme \<Rightarrow> 'a Client_scheme" where
  "RegisterVo vo t = t\<lparr>instance_vo := vo\<rparr>"

definition GetInstance :: "'a Client_scheme \<Rightarrow> InstanceVo option" where
  "GetInstance t = instance_vo t"

definition GetRegistryApps :: "'a Client_scheme \<Rightarrow> (string \<rightharpoonup> ApplicationVo)" where
  "GetRegistryApps t = registryApps t"

text \<open>
  \<open>strings.ToLower\<close> on ASCII text: \<open>A\<close>..\<open>Z\<close> become \<open>a\<close>..\<open>z\<close>, every other byte
  below 128 stays. (On text with bytes from 128 on, Go maps whole code points; the
  environment's \<open>ToLower\<close> stands for that.)
\<close>

definition lower_char :: "char \<Rightarrow> char" where
  "lower_char c =
     (let n = (of_char c :: nat) in if 65 \<le> n \<and> n \<le> 90 then char_of (n + 32) else c)"

definition ascii_ToLower :: "string \<Rightarrow> string" where
  "ascii_ToLower s = map lower_char s"

section \<open>The endpoint pool and the rotation cursor\<close>

text \<open>Go's \<open>%\<close> on integers truncates towards zero: the sign follows the dividend.\<close>

definition go_rem :: "int \<Rightarrow> int \<Rightarrow> int" where
  "go_rem a b = sgn a * (\<bar>a\<bar> mod \<bar>b\<bar>)"

text \<open>A slice read \<open>xs[i]\<close>: panics unless \<open>0 \<le> i < len(xs)\<close>.\<close>

definition index :: "'a list \<Rightarrow> int \<Rightarrow> panic + 'a" where
  "index xs i = (if 0 \<le> i \<and> i < int (length xs) then Inr (xs ! nat i) else Inl IndexOutOfRange)"

text \<open>\<open>t.pickServerUrlIdx.Inc()\<close>: adds one, wrapping, and returns the new value.\<close>

definition Inc :: "sys \<Rightarrow> int32 \<times> sys" where
  "Inc s = (pickServerUrlIdx s + 1,
            emit [EvInc] (s\<lparr>pickServerUrlIdx := pickServerUrlIdx s + 1\<rparr>))"

text \<open>\<open>currentServerUrl\<close>: \<open>None\<close> is the result \<open>("", false)\<close>.\<close>

definition currentServerUrl :: "'a Client_scheme \<Rightarrow> panic + string option" where
  "currentServerUrl t =
     (let serverLength = int (length (serviceUrls t)) in
      if serverLength \<le> 0 then Inr None
      else (case index (serviceUrls t) (go_rem (sint (pickServerUrlIdx t)) serverLength) of
              Inl p \<Rightarrow> Inl p
            | Inr url \<Rightarrow> Inr (Some url)))"

text \<open>
  The loop of \<open>getServiceUrlsWithZones\<close> over the zones, with the variable \<open>err\<close>: a
  zone that fails is logged and skipped, the first zone without an error sets the pool
  and ends the loop.
\<close>

fun zonesLoop :: "env \<Rightarrow> EurekaClientConfig \<Rightarrow> string list \<Rightarrow> string option \<Rightarrow> sys \<Rightarrow> string option \<times> sys" where
  "zonesLoop E cfg [] err s = (err, s)"
| "zonesLoop E cfg (zone # zones) err s =
     (case GetDiscoveryServiceUrls E (calls s) cfg zone of
        Inl e \<Rightarrow>
          zonesLoop E cfg zones (Some e)
            (emit [EvResolve zone, EvLog ''Failed to boot eureka client, zone=%s, err=%s''] (called s))
      | Inr urls \<Rightarrow>
          (None, (emit [EvResolve zone] (called s))\<lparr>serviceUrls := urls\<rparr>))"

definition getServiceUrlsWithZones :: "env \<Rightarrow> sys \<Rightarrow> panic + string option \<times> sys" where
  "getServiceUrlsWithZones E s =
     (case config s of
        None \<Rightarrow> Inl NilPointerDereference
      | Some cfg \<Rightarrow> Inr (zonesLoop E cfg (GetAvailabilityZones E cfg (Region cfg)) None s))"

text \<open>
  \<open>pickServiceUrl\<close> resolves once if the pool is empty; then (\<open>pickFromPool\<close>, the
  part under the read lock) it gives up on a pool still empty, and otherwise advances
  the cursor and reads the pool at the new cursor.
\<close>

definition pickFromPool :: "sys \<Rightarrow> panic + string option \<times> sys" where
  "pickFromPool s =
     (if length (serviceUrls s) = 0 then Inr (None, s)
      else (let (v, s') = Inc s; shiftIdx = sint v in
            case index (serviceUrls s') (go_rem shiftIdx (int (length (serviceUrls s')))) of
              Inl p \<Rightarrow> Inl p
            | Inr url \<Rightarrow> Inr (Some url, s')))"

definition pickServiceUrl :: "env \<Rightarrow> sys \<Rightarrow> panic + string option \<times> sys" where
  "pickServiceUrl E s =
     (if length (serviceUrls s) = 0 then
        (case getServiceUrlsWithZones E s of
           Inl p \<Rightarrow> Inl p
         | Inr (Some err, s') \<Rightarrow> Inr (None, s')
         | Inr (None, s') \<Rightarrow> pickFromPool s')
      else pickFromPool s)"

text \<open>
  \<open>pickEurekaServerApi\<close> and \<open>Api\<close>: a server handle is its base URL; \<open>Inl\<close> is the
  error "No service url is available to pick.".
\<close>

definition pickEurekaServerApi :: "env \<Rightarrow> sys \<Rightarrow> panic + (string + string) \<times> sys" where
  "pickEurekaServerApi E s =
     (case currentServerUrl s of
        Inl p \<Rightarrow> Inl p
      | Inr (Some url) \<Rightarrow> Inr (Inr url, s)
      | Inr None \<Rightarrow>
          (case pickServiceUrl E s of
             Inl p \<Rightarrow> Inl p
           | Inr (None, s') \<Rightarrow>
               Inr (Inl ''No service url is available to pick.'',
                    emit [EvLog ''No service url is available to pick.''] s')
           | Inr (Some url, s') \<Rightarrow> Inr (Inr url, s')))"

definition Api :: "env \<Rightarrow> sys \<Rightarrow> panic + (string + string) \<times> sys" where
  "Api E s = pickEurekaServerApi E s"

section \<open>Registration\<close>

definition sleep :: "int \<Rightarrow> sys \<Rightarrow> sys" where
  "sleep secs s = emit [EvSleep secs] s"

text \<open>
  \<open>registerWithAllEureka\<close>: the range expression is evaluated once, so the loop runs
  once per endpoint of the pool as it is at the call. \<open>go t.registerWithEureka()\<close> only
  launches the goroutine; what it does is \<open>registerWithEureka\<close> below.
\<close>

fun registerWithAllLoop :: "nat \<Rightarrow> sys \<Rightarrow> sys" where
  "registerWithAllLoop 0 s = s"
| "registerWithAllLoop (Suc n) s =
     registerWithAllLoop n (snd (Inc (emit [EvGo ''registerWithEureka''] s)))"

definition registerWithAllEureka :: "sys \<Rightarrow> sys" where
  "registerWithAllEureka s = registerWithAllLoop (length (serviceUrls s)) s"

text \<open>
  One pass through the body of the \<open>for\<close> loop of \<open>registerWithEureka\<close>: \<open>Return\<close>
  leaves the function (\<open>return\<close>, \<open>break\<close> or a panic), \<open>Continue\<close> is \<open>continue\<close>.
\<close>

datatype 'a flow = Return 'a | Continue sys

definition registerAttempt :: "env \<Rightarrow> sys \<Rightarrow> (panic + sys) flow" where
  "registerAttempt E s =
     (case instance_vo s of
        None \<Rightarrow> Return (Inr (emit [EvLog ''Eureka instance can't be nil''] s))
      | Some vo \<Rightarrow>
          (case Api E s of
             Inl p \<Rightarrow> Return (Inl p)
           | Inr (Inl err, s1) \<Rightarrow> Continue (sleep DEFAULT_SLEEP_INTERVALS s1)
           | Inr (Inr api, s1) \<Rightarrow>
               (case RegisterInstanceWithVo E (calls s1) api vo of
                  Inl err \<Rightarrow>
                    Continue (sleep DEFAULT_SLEEP_INTERVALS
                      (emit [EvRegister api, EvLog ''Client register failed, err=%s''] (called s1)))
                | Inr instanceId \<Rightarrow>
                    (let s2 = (emit [EvRegister api] (called s1))
                                \<lparr>instance_vo := Some (vo\<lparr>InstanceId := instanceId\<rparr>)\<rparr>
                     in case UpdateInstanceStatus E (calls s2) api (App vo) instanceId STATUS_UP of
                          Some err \<Rightarrow>
                            Continue (sleep DEFAULT_SLEEP_INTERVALS
                              (emit [EvUpdateStatus api, EvLog ''Client UP failed, err=%s''] (called s2)))
                        | None \<Rightarrow> Return (Inr (emit [EvUpdateStatus api] (called s2)))))))"

text \<open>The \<open>for\<close> loop itself has no bound: \<open>None\<close> is a loop that never ends.\<close>

partial_function (option) registerLoop :: "env \<Rightarrow> sys \<Rightarrow> (panic + sys) option" where
  "registerLoop E s =
     (case registerAttempt E s of
        Return r \<Rightarrow> Some r
      | Continue s' \<Rightarrow> registerLoop E s')"

text \<open>
  The state after \<open>n\<close> passes through the loop body that all ended in \<open>continue\<close>;
  \<open>None\<close> when one of them left the function.
\<close>

fun attempts :: "env \<Rightarrow> nat \<Rightarrow> sys \<Rightarrow> sys option" where
  "attempts E 0 s = Some s"
| "attempts E (Suc n) s =
     (case registerAttempt E s of
        Return r \<Rightarrow> None
      | Continue s' \<Rightarrow> attempts E n s')"

definition registerWithEureka :: "env \<Rightarrow> sys \<Rightarrow> (panic + sys) option" where
  "registerWithEureka E s0 =
     (let s = emit [EvCall ''registerWithEureka''] s0 in
      case config s of
        None \<Rightarrow> Some (Inl NilPointerDereference)
      | Some cfg \<Rightarrow>
          if \<not> RegisterWithEureka cfg then Some (Inr s)
          else registerLoop E s)"

section \<open>Heartbeat\<close>

text \<open>
  One tick of the ticker in \<open>heartbeat\<close>; the loop's local \<open>latestPickIdx\<close> travels
  with the state.
\<close>

fun heartbeatTick :: "env \<Rightarrow> sys \<times> int32 \<Rightarrow> (panic + sys \<times> int32) option" where
  "heartbeatTick E (s, latestPickIdx) =
     (case Api E s of
        Inl p \<Rightarrow> Some (Inl p)
      | Inr (Inl err, s1) \<Rightarrow> Some (Inr (sleep DEFAULT_SLEEP_INTERVALS s1, latestPickIdx))
      | Inr (Inr api, s1) \<Rightarrow>
          (case (if latestPickIdx \<noteq> pickServerUrlIdx s1
                 then (case registerWithEureka E s1 of
                         None \<Rightarrow> None
                       | Some (Inl p) \<Rightarrow> Some (Inl p)
                       | Some (Inr s2) \<Rightarrow> Some (Inr (s2, pickServerUrlIdx s2)))
                 else Some (Inr (s1, latestPickIdx))) of
             None \<Rightarrow> None
           | Some (Inl p) \<Rightarrow> Some (Inl p)
           | Some (Inr (s2, latest)) \<Rightarrow>
               (case instance_vo s2 of
                  None \<Rightarrow> Some (Inl NilPointerDereference)
                | Some vo \<Rightarrow>
                    (case SendHeartbeat E (calls s2) api (App vo) (InstanceId vo) of
                       Some err \<Rightarrow>
                         Some (Inr (sleep DEFAULT_SLEEP_INTERVALS
                                 (emit [EvLog ''Failed to send heartbeat, err=%s'']
                                   (snd (Inc (emit [EvHeartbeat api False] (called s2))))),
                               latest))
                     | None \<Rightarrow>
                         Some (Inr (emit [EvHeartbeat api True,
                                          EvLog ''Heartbeat url=%s, app=%s, instanceId=%s'']
                                      (called s2),
                                    latest))))))"

declare heartbeatTick.simps [simp del]

text \<open>The first \<open>n\<close> ticks of the loop, which has no exit of its own.\<close>

fun heartbeatTicks :: "env \<Rightarrow> nat \<Rightarrow> sys \<times> int32 \<Rightarrow> (panic + sys \<times> int32) option" where
  "heartbeatTicks E 0 st = Some (Inr st)"
| "heartbeatTicks E (Suc n) st =
     (case heartbeatTick E st of
        None \<Rightarrow> None
      | Some (Inl p) \<Rightarrow> Some (Inl p)
      | Some (Inr st') \<Rightarrow> heartbeatTicks E n st')"

text \<open>
  \<open>heartbeat\<close>, watched for \<open>n\<close> ticks. \<open>time.NewTicker\<close> panics on a duration that is
  not positive; the duration is the interval times \<open>time.Second\<close> in 64-bit nanoseconds.
\<close>

definition heartbeat :: "env \<Rightarrow> nat \<Rightarrow> sys \<Rightarrow> (panic + sys \<times> int32) option" where
  "heartbeat E n s =
     (case config s of
        None \<Rightarrow> Some (Inl NilPointerDereference)
      | Some cfg \<Rightarrow>
          if sint (word_of_int (HeartbeatIntervals cfg * 1000000000) :: 64 word) \<le> 0
          then Some (Inl NonPositiveTickerInterval)
          else heartbeatTicks E n (s, 0))"

text \<open>
  Reading a run of the heartbeat loop. \<open>reregistered ok evs\<close>: no heartbeat of \<open>evs\<close>
  is sent after an increment of the cursor unless \<open>registerWithEureka\<close> was called in
  between; \<open>ok\<close> says whether that holds at the start. \<open>fresh_after\<close> is the same flag
  at the end of the run.
\<close>

fun reregistered :: "bool \<Rightarrow> event list \<Rightarrow> bool" where
  "reregistered ok [] = True"
| "reregistered ok (EvInc # evs) = reregistered False evs"
| "reregistered ok (EvCall name # evs) =
     reregistered (if name = ''registerWithEureka'' then True else ok) evs"
| "reregistered ok (EvHeartbeat url sent # evs) = (ok \<and> reregistered ok evs)"
| "reregistered ok (ev # evs) = reregistered ok evs"

fun fresh_after :: "bool \<Rightarrow> event list \<Rightarrow> bool" where
  "fresh_after ok [] = ok"
| "fresh_after ok (EvInc # evs) = fresh_after False evs"
| "fresh_after ok (EvCall name # evs) =
     fresh_after (if name = ''registerWithEureka'' then True else ok) evs"
| "fresh_after ok (ev # evs) = fresh_after ok evs"

text \<open>The heartbeats of a run that failed, and its increments of the cursor.\<close>

fun failedHeartbeats :: "event list \<Rightarrow> nat" where
  "failedHeartbeats [] = 0"
| "failedHeartbeats (EvHeartbeat url sent # evs) = (if sent then 0 else 1) + failedHeartbeats evs"
| "failedHeartbeats (ev # evs) = failedHeartbeats evs"

fun rotations :: "event list \<Rightarrow> nat" where
  "rotations [] = 0"
| "rotations (EvInc # evs) = Suc (rotations evs)"
| "rotations (ev # evs) = rotations evs"

text \<open>The events of a registration with a pool at hand: calls, log lines and sleeps.\<close>

fun quiet :: "event \<Rightarrow> bool" where
  "quiet (EvLog msg) = True"
| "quiet (EvSleep secs) = True"
| "quiet (EvRegister url) = True"
| "quiet (EvUpdateStatus url) = True"
| "quiet ev = False"

section \<open>Registry refresh\<close>

text \<open>The fresh map that \<open>fetchRegistry\<close> fills from the queried applications, in order.\<close>

definition buildRegistry :: "ApplicationVo list \<Rightarrow> (string \<rightharpoonup> ApplicationVo)" where
  "buildRegistry apps = fold (\<lambda>app m. m(Name app \<mapsto> app)) apps Map.empty"

text \<open>\<open>fetchRegistry\<close>: \<open>Inl\<close> is the result \<open>(nil, err)\<close>.\<close>

definition fetchRegistry :: "env \<Rightarrow> sys \<Rightarrow> panic + (string + (string \<rightharpoonup> ApplicationVo)) \<times> sys" where
  "fetchRegistry E s =
     (case Api E s of
        Inl p \<Rightarrow> Inl p
      | Inr (Inl err, s1) \<Rightarrow>
          Inr (Inl err, emit [EvLog ''Failed to QueryAllInstances, err=%s''] s1)
      | Inr (Inr api, s1) \<Rightarrow>
          (case QueryAllInstances E (calls s1) api of
             Inl err \<Rightarrow>
               Inr (Inl err, emit [EvQuery api, EvLog ''Failed to QueryAllInstances, err=%s''] (called s1))
           | Inr apps \<Rightarrow>
               (let s2 = (emit [EvQuery api] (called s1))\<lparr>registryApps := buildRegistry apps\<rparr>
                in Inr (Inr (registryApps s2), s2))))"

fun refreshRegistryLoop :: "env \<Rightarrow> EurekaClientConfig \<Rightarrow> nat \<Rightarrow> sys \<Rightarrow> panic + sys" where
  "refreshRegistryLoop E cfg 0 s = Inr s"
| "refreshRegistryLoop E cfg (Suc n) s =
     (case fetchRegistry E s of
        Inl p \<Rightarrow> Inl p
      | Inr (r, s1) \<Rightarrow> refreshRegistryLoop E cfg n (sleep (RegistryFetchIntervalSeconds cfg) s1))"

text \<open>\<open>refreshRegistry\<close>, watched for \<open>n\<close> rounds of its endless loop.\<close>

definition refreshRegistry :: "env \<Rightarrow> nat \<Rightarrow> sys \<Rightarrow> panic + sys" where
  "refreshRegistry E n s =
     (case config s of
        None \<Rightarrow> Inl NilPointerDereference
      | Some cfg \<Rightarrow> if \<not> FetchRegistry cfg then Inr s else refreshRegistryLoop E cfg n s)"

section \<open>Refresh of the service URLs\<close>

text \<open>
  The goroutine that \<open>refreshServiceUrls\<close> starts, watched for \<open>n\<close> rounds of its
  endless loop. In Go \<open>!a && b\<close> is \<open>(!a) && b\<close>.
\<close>

fun autoUpdateLoop :: "env \<Rightarrow> EurekaClientConfig \<Rightarrow> nat \<Rightarrow> sys \<Rightarrow> panic + sys" where
  "autoUpdateLoop E cfg 0 s = Inr s"
| "autoUpdateLoop E cfg (Suc n) s =
     (case getServiceUrlsWithZones E s of
        Inl p \<Rightarrow> Inl p
      | Inr (err, s1) \<Rightarrow>
          autoUpdateLoop E cfg n
            (emit [EvLog ''AutoUpdateDnsServiceUrls... ok'']
               (sleep (AutoUpdateDnsServiceUrlsIntervals cfg) s1)))"

definition autoUpdateServiceUrls :: "env \<Rightarrow> nat \<Rightarrow> sys \<Rightarrow> panic + sys" where
  "autoUpdateServiceUrls E n s =
     (case config s of
        None \<Rightarrow> Inl NilPointerDereference
      | Some cfg \<Rightarrow>
          if (\<not> UseDnsForFetchingServiceUrls cfg) \<and> AutoUpdateDnsServiceUrls cfg then Inr s
          else autoUpdateLoop E cfg n s)"

definition refreshServiceUrls :: "env \<Rightarrow> sys \<Rightarrow> panic + string option \<times> sys" where
  "refreshServiceUrls E s =
     (case getServiceUrlsWithZones E s of
        Inl p \<Rightarrow> Inl p
      | Inr (Some err, s1) \<Rightarrow>
          Inr (Some err, emit [EvLog ''Failed to init service urls, err=%s''] s1)
      | Inr (None, s1) \<Rightarrow> Inr (None, emit [EvGo ''autoUpdateServiceUrls''] s1))"

text \<open>The resolutions that a run asked for: the zones of its \<open>EvResolve\<close> events.\<close>

fun resolved :: "event list \<Rightarrow> string list" where
  "resolved [] = []"
| "resolved (EvResolve zone # evs) = zone # resolved evs"
| "resolved (ev # evs) = resolved evs"

section \<open>Shutdown\<close>

datatype signal = SIGINT | SIGKILL | SIGTERM | SIGOTHER

definition DeRegisterInstance :: "env \<Rightarrow> sys \<Rightarrow> panic + sys" where
  "DeRegisterInstance E s =
     (case instance_vo s of
        None \<Rightarrow> Inl NilPointerDereference
      | Some vo \<Rightarrow>
          (let s0 = emit [EvLog ''Receive exit signal, client instance going to de-register, instanceId=%s.''] s in
           case Api E s0 of
             Inl p \<Rightarrow> Inl p
           | Inr (Inl err, s1) \<Rightarrow>
               Inr (emit [EvLog ''Failed to get EurekaServerApi instance, de-register %s failed, err=%s''] s1)
           | Inr (Inr api, s1) \<Rightarrow>
               (case DeRegisterInstance_api E (calls s1) api (App vo) (InstanceId vo) of
                  Some err \<Rightarrow>
                    Inr (emit [EvDeRegister api, EvLog ''Failed to de-register %s, err=%s''] (called s1))
                | None \<Rightarrow>
                    Inr (emit [EvDeRegister api, EvLog ''de-register %s success.''] (called s1)))))"

text \<open>The loop of the signal handler over the pool, \<open>n\<close> endpoints to go.\<close>

fun deRegisterLoop :: "env \<Rightarrow> nat \<Rightarrow> sys \<Rightarrow> panic + sys" where
  "deRegisterLoop E 0 s = Inr s"
| "deRegisterLoop E (Suc n) s =
     (case DeRegisterInstance E s of
        Inl p \<Rightarrow> Inl p
      | Inr s1 \<Rightarrow> deRegisterLoop E n (snd (Inc s1)))"

text \<open>
  \<open>handleSignal\<close> on the signals that arrive on the channel, in order. \<open>Some code\<close> is
  \<open>os.Exit(code)\<close>; \<open>None\<close> is a handler still waiting after the last signal given.
\<close>

fun handleSignal :: "env \<Rightarrow> signal list \<Rightarrow> sys \<Rightarrow> panic + int option \<times> sys" where
  "handleSignal E [] s = Inr (None, s)"
| "handleSignal E (sig # sigs) s =
     (if sig = SIGINT \<or> sig = SIGKILL \<or> sig = SIGTERM then
        (case deRegisterLoop E (length (serviceUrls s)) s of
           Inl p \<Rightarrow> Inl p
         | Inr s1 \<Rightarrow> Inr (Some 0, emit [EvExit 0] s1))
      else handleSignal E sigs s)"

text \<open>A run without its log lines.\<close>

fun isLog :: "event \<Rightarrow> bool" where
  "isLog (EvLog msg) = True"
| "isLog ev = False"

definition noLogs :: "event list \<Rightarrow> event list" where
  "noLogs evs = filter (\<lambda>ev. \<not> isLog ev) evs"

section \<open>Start\<close>

text \<open>\<open>Run\<close>: the goroutines are launched, not followed.\<close>

definition Run :: "env \<Rightarrow> sys \<Rightarrow> panic + sys" where
  "Run E s =
     (case refreshServiceUrls E s of
        Inl p \<Rightarrow> Inl p
      | Inr (Some err, s1) \<Rightarrow> Inr (emit [EvLog ''Failed to refresh service urls, err=%s''] s1)
      | Inr (None, s1) \<Rightarrow>
          Inr (emit [EvGo ''heartbeat'']
                (registerWithAllEureka (emit [EvGo ''handleSignal'', EvGo ''refreshRegistry''] s1))))"

section \<open>Concrete systems\<close>

text \<open>One rotation: \<open>t.pickServerUrlIdx.Inc()\<close> with the value dropped.\<close>

definition rotate :: "sys \<Rightarrow> sys" where
  "rotate s = snd (Inc s)"

text \<open>A fresh client with a pool of three endpoints; the cursor is at its zero value.\<close>

definition pool3 :: sys where
  "pool3 = \<lparr>config = None, instance_vo = None,
     serviceUrls = [''http://a/eureka'', ''http://b/eureka'', ''http://c/eureka''],
     registryApps = Map.empty, pickServerUrlIdx = 0, calls = 0, trace = []\<rparr>"

text \<open>The configuration of the example program: static service URLs, no auto-refresh.\<close>

definition cfg0 :: EurekaClientConfig where
  "cfg0 = \<lparr>Region = ''region-cn-hd-1'', UseDnsForFetchingServiceUrls = False,
     AutoUpdateDnsServiceUrls = False, AutoUpdateDnsServiceUrlsIntervals = 60,
     RegisterWithEureka = True, HeartbeatIntervals = 30, FetchRegistry = True,
     RegistryFetchIntervalSeconds = 30\<rparr>"

text \<open>The descriptor that \<open>Register("APP_ID_CLIENT_FROM_CONFIG", 9000)\<close> sets.\<close>

definition vo0 :: InstanceVo where
  "vo0 = \<lparr>App = ''APP_ID_CLIENT_FROM_CONFIG'', InstanceId = [], Status = STATUS_STARTING,
     Port = \<lparr>Value = 9000, Enabled = ''true''\<rparr>,
     VipAddress = ''app_id_client_from_config'',
     SecureVipAddress = ''app_id_client_from_config''\<rparr>"

text \<open>
  Collaborators that answer every call, but for the first call of a run when it is a
  heartbeat or a de-registration: that one times out.
\<close>

definition env0 :: env where
  "env0 = \<lparr>DefaultInstanceVo = vo0, ToLower = ascii_ToLower,
     GetAvailabilityZones = (\<lambda>cfg region. [''zone-cn-hz-1'']),
     GetDiscoveryServiceUrls = (\<lambda>k cfg zone. Inr [''http://192.168.20.236:9001/eureka'',
                                                    ''http://192.168.20.237:9001/eureka'']),
     RegisterInstanceWithVo = (\<lambda>k api vo. Inr ''host:app:9000''),
     UpdateInstanceStatus = (\<lambda>k api app ident st. None),
     SendHeartbeat = (\<lambda>k api app ident. if k = 0 then Some ''timeout'' else None),
     DeRegisterInstance_api = (\<lambda>k api app ident. if k = 0 then Some ''timeout'' else None),
     QueryAllInstances = (\<lambda>k api. Inr [\<lparr>Name = ''APP-A'', Payload = ''a''\<rparr>,
                                         \<lparr>Name = ''APP-B'', Payload = ''b''\<rparr>])\<rparr>"

text \<open>The configured client before its pool is resolved.\<close>

definition sys0 :: sys where
  "sys0 = \<lparr>config = Some cfg0, instance_vo = Some vo0, serviceUrls = [],
     registryApps = Map.empty, pickServerUrlIdx = 0, calls = 0, trace = []\<rparr>"

text \<open>Two zones: the first resolves to an empty list without an error.\<close>

definition env_empty_zone :: env where
  "env_empty_zone = env0\<lparr>
     GetAvailabilityZones := (\<lambda>cfg region. [''z1'', ''z2'']),
     GetDiscoveryServiceUrls := (\<lambda>k cfg zone. if zone = ''z1'' then Inr [] else Inr [''http://b/eureka''])\<rparr>"

text \<open>Two zones: the first fails to resolve.\<close>

definition env_first_zone_down :: env where
  "env_first_zone_down = env0\<lparr>
     GetAvailabilityZones := (\<lambda>cfg region. [''z1'', ''z2'']),
     GetDiscoveryServiceUrls := (\<lambda>k cfg zone. if zone = ''z1'' then Inl ''no such host'' else Inr [''http://b/eureka''])\<rparr>"

text \<open>No zone resolves.\<close>

definition env_all_zones_down :: env where
  "env_all_zones_down = env0\<lparr>
     GetAvailabilityZones := (\<lambda>cfg region. [''z1'', ''z2'']),
     GetDiscoveryServiceUrls := (\<lambda>k cfg zone. Inl (''no such host '' @ zone))\<rparr>"

text \<open>A configured client on which \<open>Register\<close> was never called.\<close>

definition sys_nil_instance :: sys where
  "sys_nil_instance = sys0\<lparr>instance_vo := None\<rparr>"

text \<open>A client whose registry cache holds an application from an earlier refresh.\<close>

definition sys_stale :: sys where
  "sys_stale = sys0\<lparr>serviceUrls := [''http://a/eureka'', ''http://b/eureka''],
     registryApps := [''APP-OLD'' \<mapsto> \<lparr>Name = ''APP-OLD'', Payload = ''old''\<rparr>]\<rparr>"

text \<open>The registry query fails.\<close>

definition env_query_down :: env where
  "env_query_down = env0\<lparr>QueryAllInstances := (\<lambda>k api. Inl ''connection refused'')\<rparr>"

text \<open>A client about to shut down: three endpoints, the cursor at 4.\<close>

definition sys_shutdown :: sys where
  "sys_shutdown = pool3\<lparr>instance_vo := Some vo0, pickServerUrlIdx := 4\<rparr>"

text \<open>A configured client with its descriptor and a pool of two endpoints.\<close>

definition sys_ready :: sys where
  "sys_ready = sys0\<lparr>serviceUrls := [''http://a/eureka'', ''http://b/eureka'']\<rparr>"

text \<open>The first collaborator call of a run is a register call that fails.\<close>

definition env_flaky :: env where
  "env_flaky = env0\<lparr>RegisterInstanceWithVo :=
     (\<lambda>k api vo. if k = 0 then Inl ''connection refused'' else Inr ''host:app:9000'')\<rparr>"

text \<open>No register call ever succeeds.\<close>

definition env_register_down :: env where
  "env_register_down = env0\<lparr>RegisterInstanceWithVo := (\<lambda>k api vo. Inl ''connection refused'')\<rparr>"

text \<open>The client \<open>sys_ready\<close> after a tick whose heartbeat failed.\<close>

definition sys_rotated :: sys where
  "sys_rotated = sys_ready\<lparr>pickServerUrlIdx := 1, calls := Suc 0,
     trace := [EvHeartbeat ''http://a/eureka'' False, EvInc,
               EvLog ''Failed to send heartbeat, err=%s'', EvSleep 3]\<rparr>"

section \<open>Fields untouched by the bookkeeping\<close>

lemma emit_fields [simp]:
  "config (emit evs s) = config s" "instance_vo (emit evs s) = instance_vo s"
  "serviceUrls (emit evs s) = serviceUrls s" "registryApps (emit evs s) = registryApps s"
  "pickServerUrlIdx (emit evs s) = pickServerUrlIdx s" "calls (emit evs s) = calls s"
  "trace (emit evs s) = trace s @ evs"
  by (simp_all add: emit_def)

lemma called_fields [simp]:
  "config (called s) = config s" "instance_vo (called s) = instance_vo s"
  "serviceUrls (called s) = serviceUrls s" "registryApps (called s) = registryApps s"
  "pickServerUrlIdx (called s) = pickServerUrlIdx s" "calls (called s) = Suc (calls s)"
  "trace (called s) = trace s"
  by (simp_all add: called_def)

lemma sleep_fields [simp]:
  "config (sleep n s) = config s" "instance_vo (sleep n s) = instance_vo s"
  "serviceUrls (sleep n s) = serviceUrls s" "registryApps (sleep n s) = registryApps s"
  "pickServerUrlIdx (sleep n s) = pickServerUrlIdx s" "calls (sleep n s) = calls s"
  "trace (sleep n s) = trace s @ [EvSleep n]"
  by (simp_all add: sleep_def)

lemma Inc_fields [simp]:
  "config (snd (Inc s)) = config s" "instance_vo (snd (Inc s)) = instance_vo s"
  "serviceUrls (snd (Inc s)) = serviceUrls s" "registryApps (snd (Inc s)) = registryApps s"
  "pickServerUrlIdx (snd (Inc s)) = pickServerUrlIdx s + 1" "calls (snd (Inc s)) = calls s"
  "trace (snd (Inc s)) = trace s @ [EvInc]" "fst (Inc s) = pickServerUrlIdx s + 1"
  by (simp_all add: Inc_def)

lemma resolved_append [simp]: "resolved (xs @ ys) = resolved xs @ resolved ys"
  by (induction xs rule: resolved.induct) simp_all

section \<open>Properties of the endpoint selection\<close>

lemma rotate_eq:
  "rotate s = s\<lparr>pickServerUrlIdx := pickServerUrlIdx s + 1, trace := trace s @ [EvInc]\<rparr>"
  by (simp add: rotate_def Inc_def emit_def)

lemma rotate_funpow:
  "(rotate ^^ n) s = s\<lparr>pickServerUrlIdx := pickServerUrlIdx s + of_nat n,
                         trace := trace s @ replicate n EvInc\<rparr>"
proof (induction n)
  case 0
  show ?case by simp
next
  case (Suc n)
  show ?case
    by (simp only: funpow.simps o_apply Suc)
       (simp add: rotate_eq replicate_append_same ac_simps)
qed

text \<open>
  While the cursor, read as a signed 32-bit integer, is not negative, the selection
  is \<open>pool[cursor mod N]\<close> and in range.
\<close>

lemma currentServerUrl_in_range:
  assumes "serviceUrls t \<noteq> []" and "0 \<le> sint (pickServerUrlIdx t)"
  shows "currentServerUrl t =
           Inr (Some (serviceUrls t ! (nat (sint (pickServerUrlIdx t)) mod length (serviceUrls t))))"
proof -
  let ?n = "int (length (serviceUrls t))"
  let ?c = "sint (pickServerUrlIdx t)"
  have n: "0 < ?n" using assms(1) by simp
  have r: "go_rem ?c ?n = ?c mod ?n"
    using assms(2) n by (cases "?c = 0") (simp_all add: go_rem_def sgn_if)
  have "0 \<le> ?c mod ?n" "?c mod ?n < ?n" using n by simp_all
  moreover have "nat (?c mod ?n) = nat ?c mod length (serviceUrls t)"
    using assms(2) by (simp add: nat_mod_distrib)
  ultimately show ?thesis
    using n by (simp add: currentServerUrl_def Let_def index_def r)
qed

text \<open>
  Claim C1. For a non-empty pool of length N, after any number of rotations the
  selection returns \<open>pool[cursor mod N]\<close> and never indexes out of range. The code
  breaks this: from a fresh client with three endpoints, the 2147483648th increment
  wraps the 32-bit cursor to -2147483648, Go's remainder by 3 is -2, and the slice
  read panics.
\<close>

theorem currentServerUrl_panics_after_wrap:
  "currentServerUrl ((rotate ^^ 2147483648) pool3) = Inl IndexOutOfRange"
  by (simp add: rotate_funpow pool3_def currentServerUrl_def Let_def index_def go_rem_def)

section \<open>Properties of the descriptor set by Register\<close>

text \<open>
  Claim C10. For every application identifier and port, \<open>Register\<close> sets a descriptor
  whose application is the identifier, whose status is STARTING, whose port is the
  given one and enabled, and whose vip and secure vip addresses are the lowercase
  identifier; the descriptor set before plays no part, and the client returned is the
  one given, changed in no other field.
\<close>

theorem Register_descriptor:
  "\<exists>vo. Register E appId port t = t\<lparr>instance_vo := Some vo\<rparr>
      \<and> App vo = appId \<and> Status vo = STATUS_STARTING
      \<and> Port vo = \<lparr>Value = port, Enabled = ''true''\<rparr>
      \<and> VipAddress vo = ToLower E appId \<and> SecureVipAddress vo = ToLower E appId
      \<and> InstanceId vo = InstanceId (DefaultInstanceVo E)
      \<and> Register E appId port (t\<lparr>instance_vo := old\<rparr>) = Register E appId port t"
proof -
  let ?vo = "(DefaultInstanceVo E)\<lparr>App := appId, Status := STATUS_STARTING,
               Port := \<lparr>Value = port, Enabled = ''true''\<rparr>,
               VipAddress := ToLower E appId, SecureVipAddress := ToLower E appId\<rparr>"
  show ?thesis
    by (rule exI [of _ ?vo]) (simp add: Register_def Let_def)
qed

lemma ascii_ToLower_example:
  "ascii_ToLower ''APP_ID_CLIENT_FROM_CONFIG'' = ''app_id_client_from_config''"
  by code_simp

section \<open>Properties of the zone resolution\<close>

lemma zonesLoop_frame:
  "zonesLoop E cfg zs err s = (r, s') \<Longrightarrow>
     config s' = config s \<and> instance_vo s' = instance_vo s \<and> registryApps s' = registryApps s
     \<and> pickServerUrlIdx s' = pickServerUrlIdx s"
  by (induction zs arbitrary: err s) (auto split: sum.splits)

lemma zonesLoop_success:
  assumes "k < length zs"
    and "GetDiscoveryServiceUrls E (calls s + k) cfg (zs ! k) = Inr urls"
    and "\<forall>i<k. isl (GetDiscoveryServiceUrls E (calls s + i) cfg (zs ! i))"
  shows "\<exists>s' evs. zonesLoop E cfg zs err s = (None, s') \<and> serviceUrls s' = urls
           \<and> trace s' = trace s @ evs \<and> resolved evs = take (Suc k) zs
           \<and> calls s' = calls s + Suc k"
  using assms
proof (induction zs arbitrary: k err s)
  case Nil
  then show ?case by simp
next
  case (Cons z zs)
  show ?case
  proof (cases k)
    case 0
    with Cons.prems show ?thesis by simp
  next
    case (Suc j)
    from Cons.prems(3) Suc have "isl (GetDiscoveryServiceUrls E (calls s) cfg z)"
      by (metis add.right_neutral nth_Cons_0 zero_less_Suc)
    then obtain e where e: "GetDiscoveryServiceUrls E (calls s) cfg z = Inl e"
      by (auto simp: isl_def)
    let ?s1 = "emit [EvResolve z, EvLog ''Failed to boot eureka client, zone=%s, err=%s''] (called s)"
    have a: "j < length zs" using Cons.prems(1) Suc by simp
    have b: "GetDiscoveryServiceUrls E (calls ?s1 + j) cfg (zs ! j) = Inr urls"
      using Cons.prems(2) Suc by simp
    have c: "\<forall>i<j. isl (GetDiscoveryServiceUrls E (calls ?s1 + i) cfg (zs ! i))"
    proof (intro allI impI)
      fix i assume "i < j"
      then have "Suc i < k" using Suc by simp
      with Cons.prems(3) have "isl (GetDiscoveryServiceUrls E (calls s + Suc i) cfg ((z # zs) ! Suc i))"
        by blast
      then show "isl (GetDiscoveryServiceUrls E (calls ?s1 + i) cfg (zs ! i))" by simp
    qed
    from Cons.IH [OF a b c, of "Some e"] obtain s' evs where
      "zonesLoop E cfg zs (Some e) ?s1 = (None, s')" "serviceUrls s' = urls"
      "trace s' = trace ?s1 @ evs" "resolved evs = take (Suc j) zs" "calls s' = calls ?s1 + Suc j"
      by blast
    then show ?thesis using e Suc by simp
  qed
qed

lemma zonesLoop_all_fail:
  assumes "\<forall>i<length zs. isl (GetDiscoveryServiceUrls E (calls s + i) cfg (zs ! i))"
  shows "\<exists>s' evs. zonesLoop E cfg zs err s =
              (if zs = [] then err
               else Some (projl (GetDiscoveryServiceUrls E (calls s + (length zs - 1)) cfg (last zs))), s')
           \<and> serviceUrls s' = serviceUrls s
           \<and> trace s' = trace s @ evs \<and> resolved evs = zs
           \<and> calls s' = calls s + length zs"
  using assms
proof (induction zs arbitrary: err s)
  case Nil
  then show ?case by simp
next
  case (Cons z zs)
  from Cons.prems have "isl (GetDiscoveryServiceUrls E (calls s) cfg z)"
    by (metis add.right_neutral length_greater_0_conv list.distinct(1) nth_Cons_0)
  then obtain e where e: "GetDiscoveryServiceUrls E (calls s) cfg z = Inl e"
    by (auto simp: isl_def)
  let ?s1 = "emit [EvResolve z, EvLog ''Failed to boot eureka client, zone=%s, err=%s''] (called s)"
  have c: "\<forall>i<length zs. isl (GetDiscoveryServiceUrls E (calls ?s1 + i) cfg (zs ! i))"
  proof (intro allI impI)
    fix i assume "i < length zs"
    then have "Suc i < length (z # zs)" by simp
    with Cons.prems have "isl (GetDiscoveryServiceUrls E (calls s + Suc i) cfg ((z # zs) ! Suc i))"
      by blast
    then show "isl (GetDiscoveryServiceUrls E (calls ?s1 + i) cfg (zs ! i))" by simp
  qed
  from Cons.IH [OF c, of "Some e"] obtain s' evs where r:
    "zonesLoop E cfg zs (Some e) ?s1 =
       (if zs = [] then Some e
        else Some (projl (GetDiscoveryServiceUrls E (calls ?s1 + (length zs - 1)) cfg (last zs))), s')"
    "serviceUrls s' = serviceUrls ?s1"
    "trace s' = trace ?s1 @ evs" "resolved evs = zs" "calls s' = calls ?s1 + length zs"
    by blast
  let ?evs = "[EvResolve z, EvLog ''Failed to boot eureka client, zone=%s, err=%s''] @ evs"
  have t: "trace s' = trace s @ ?evs" "resolved ?evs = z # zs"
    "serviceUrls s' = serviceUrls s" "calls s' = calls s + length (z # zs)"
    using r by simp_all
  have "zonesLoop E cfg (z # zs) err s =
          (Some (projl (GetDiscoveryServiceUrls E (calls s + (length (z # zs) - 1)) cfg (last (z # zs)))), s')"
  proof (cases "zs = []")
    case True
    with r e show ?thesis by simp
  next
    case False
    then have "Suc (calls s + (length zs - 1)) = calls s + length zs" by (cases zs) simp_all
    with r e False show ?thesis by simp
  qed
  with t show ?case by (intro exI [of _ s'] exI [of _ ?evs]) simp
qed

text \<open>
  Claim C5, as the spec has it: the zones are tried in priority order, the loop stops
  at the first zone that resolves to a non-empty URL list, and an error is returned
  only when every zone failed. The code does not look at the list: with a first zone
  that resolves to the empty list without an error, the pool becomes empty and the
  second zone, which has an endpoint, is never asked.
\<close>

theorem zone_resolution_stops_at_empty_list:
  "getServiceUrlsWithZones env_empty_zone sys0 =
     Inr (None, sys0\<lparr>serviceUrls := [], calls := 1, trace := [EvResolve ''z1'']\<rparr>)
   \<and> GetDiscoveryServiceUrls env_empty_zone 1 cfg0 ''z2'' = Inr [''http://b/eureka'']"
  by (simp add: getServiceUrlsWithZones_def sys0_def env_empty_zone_def env0_def emit_def called_def)

text \<open>
  Claim C5, amended. The zones are tried in priority order. The loop stops at the
  first zone whose resolution returns no error, whatever the length of its list: the
  pool is set to that list, no later zone is asked and no error is returned. When
  every zone fails, the pool stays as it was and the error of the last zone is
  returned (no error when no zone is configured). So an error is returned only when
  there are zones and each of them failed.
\<close>

theorem getServiceUrlsWithZones_first_without_error:
  fixes E :: env and s :: sys and cfg :: EurekaClientConfig
  defines "zs \<equiv> GetAvailabilityZones E cfg (Region cfg)"
  defines "r \<equiv> (\<lambda>i. GetDiscoveryServiceUrls E (calls s + i) cfg (zs ! i))"
  assumes cfg: "config s = Some cfg"
  shows "(\<forall>k urls. k < length zs \<and> r k = Inr urls \<and> (\<forall>i<k. isl (r i)) \<longrightarrow>
            (\<exists>s' evs. getServiceUrlsWithZones E s = Inr (None, s') \<and> serviceUrls s' = urls
               \<and> trace s' = trace s @ evs \<and> resolved evs = take (Suc k) zs))
       \<and> ((\<forall>i<length zs. isl (r i)) \<longrightarrow>
            (\<exists>s' evs. getServiceUrlsWithZones E s =
                 Inr (if zs = [] then None else Some (projl (r (length zs - 1))), s')
               \<and> serviceUrls s' = serviceUrls s
               \<and> trace s' = trace s @ evs \<and> resolved evs = zs))
       \<and> (\<forall>err s'. getServiceUrlsWithZones E s = Inr (Some err, s') \<longrightarrow>
            zs \<noteq> [] \<and> (\<forall>i<length zs. isl (r i)))"
proof -
  have first: "\<exists>s' evs. getServiceUrlsWithZones E s = Inr (None, s') \<and> serviceUrls s' = urls
               \<and> trace s' = trace s @ evs \<and> resolved evs = take (Suc k) zs"
    if "k < length zs \<and> r k = Inr urls \<and> (\<forall>i<k. isl (r i))" for k urls
    using that zonesLoop_success [of k zs E s cfg urls None] cfg
    unfolding r_def zs_def getServiceUrlsWithZones_def by auto
  have l: "zs \<noteq> [] \<Longrightarrow> last zs = zs ! (length zs - 1)" by (simp add: last_conv_nth)
  have none: "\<exists>s' evs. getServiceUrlsWithZones E s =
                 Inr (if zs = [] then None else Some (projl (r (length zs - 1))), s')
               \<and> serviceUrls s' = serviceUrls s
               \<and> trace s' = trace s @ evs \<and> resolved evs = zs"
    if "\<forall>i<length zs. isl (r i)"
    using that zonesLoop_all_fail [of zs E s cfg None] cfg l
    unfolding r_def zs_def getServiceUrlsWithZones_def by auto
  have only: "zs \<noteq> [] \<and> (\<forall>i<length zs. isl (r i))"
    if res: "getServiceUrlsWithZones E s = Inr (Some err, s')" for err s'
  proof -
   have all: "\<forall>i<length zs. isl (r i)"
   proof (rule ccontr)
    assume "\<not> (\<forall>i<length zs. isl (r i))"
    then have ex: "\<exists>k. k < length zs \<and> \<not> isl (r k)" by blast
    define k where "k = (LEAST k. k < length zs \<and> \<not> isl (r k))"
    have k: "k < length zs \<and> \<not> isl (r k)"
      unfolding k_def using ex by (rule LeastI_ex)
    have before: "\<forall>i<k. isl (r i)"
    proof (intro allI impI)
      fix i assume "i < k"
      then have "\<not> (i < length zs \<and> \<not> isl (r i))"
        unfolding k_def by (rule not_less_Least)
      moreover have "i < length zs" using \<open>i < k\<close> k by simp
      ultimately show "isl (r i)" by blast
    qed
    from k obtain urls where "r k = Inr urls" by (cases "r k") simp_all
    with k before have "\<exists>s' evs. zonesLoop E cfg zs None s = (None, s') \<and> serviceUrls s' = urls
           \<and> trace s' = trace s @ evs \<and> resolved evs = take (Suc k) zs
           \<and> calls s' = calls s + Suc k"
      unfolding r_def by (intro zonesLoop_success) simp_all
    with res cfg show False
      unfolding zs_def getServiceUrlsWithZones_def by auto
   qed
   moreover have "zs \<noteq> []"
   proof
     assume "zs = []"
     with res cfg show False unfolding zs_def getServiceUrlsWithZones_def by simp
   qed
   ultimately show ?thesis by blast
  qed
  from first none only show ?thesis by blast
qed

theorem getServiceUrlsWithZones_first_without_error_witness:
  "(\<exists>s'. getServiceUrlsWithZones env_first_zone_down sys0 = Inr (None, s')
         \<and> serviceUrls s' = [''http://b/eureka''] \<and> resolved (trace s') = [''z1'', ''z2''])
   \<and> (\<exists>s'. getServiceUrlsWithZones env_all_zones_down sys0 = Inr (Some ''no such host z2'', s')
         \<and> serviceUrls s' = [] \<and> resolved (trace s') = [''z1'', ''z2''])"
proof -
  have c: "config sys0 = Some cfg0" by (simp add: sys0_def)
  have a: "\<exists>s' evs. getServiceUrlsWithZones env_first_zone_down sys0 = Inr (None, s')
             \<and> serviceUrls s' = [''http://b/eureka''] \<and> trace s' = trace sys0 @ evs
             \<and> resolved evs = take (Suc 1) (GetAvailabilityZones env_first_zone_down cfg0 (Region cfg0))"
    by (rule getServiceUrlsWithZones_first_without_error [OF c, THEN conjunct1, rule_format])
       (simp add: env_first_zone_down_def env0_def)
  have b: "\<exists>s' evs. getServiceUrlsWithZones env_all_zones_down sys0 =
             Inr (if GetAvailabilityZones env_all_zones_down cfg0 (Region cfg0) = [] then None
                  else Some (projl (GetDiscoveryServiceUrls env_all_zones_down
                         (calls sys0 + (length (GetAvailabilityZones env_all_zones_down cfg0 (Region cfg0)) - 1)) cfg0
                         (GetAvailabilityZones env_all_zones_down cfg0 (Region cfg0) !
                            (length (GetAvailabilityZones env_all_zones_down cfg0 (Region cfg0)) - 1)))), s')
             \<and> serviceUrls s' = serviceUrls sys0 \<and> trace s' = trace sys0 @ evs
             \<and> resolved evs = GetAvailabilityZones env_all_zones_down cfg0 (Region cfg0)"
    by (rule getServiceUrlsWithZones_first_without_error [OF c, THEN conjunct2, THEN conjunct1, rule_format])
       (simp add: env_all_zones_down_def env0_def)
  from a have "\<exists>s'. getServiceUrlsWithZones env_first_zone_down sys0 = Inr (None, s')
         \<and> serviceUrls s' = [''http://b/eureka''] \<and> resolved (trace s') = [''z1'', ''z2'']"
    by (auto simp: env_first_zone_down_def env0_def sys0_def)
  moreover from b have "\<exists>s'. getServiceUrlsWithZones env_all_zones_down sys0 = Inr (Some ''no such host z2'', s')
         \<and> serviceUrls s' = [] \<and> resolved (trace s') = [''z1'', ''z2'']"
    by (auto simp: env_all_zones_down_def env0_def sys0_def)
  ultimately show ?thesis by blast
qed

section \<open>Properties of the refresh of the service URLs\<close>

lemma autoUpdateServiceUrls_active:
  "config s = Some cfg \<Longrightarrow>
   autoUpdateServiceUrls E n s =
     (if UseDnsForFetchingServiceUrls cfg \<or> \<not> AutoUpdateDnsServiceUrls cfg
      then autoUpdateLoop E cfg n s else Inr s)"
  by (simp add: autoUpdateServiceUrls_def)

text \<open>
  Claim C4. The refresh loop is active exactly when DNS-based resolution and
  auto-refresh are both configured, as the comment above the goroutine says too. The
  code's guard \<open>!UseDns && AutoUpdate\<close> leaves the loop only for static URLs with
  auto-refresh on: with static URLs and auto-refresh off, as below, the loop runs and
  resolves again in every round.
\<close>

theorem autoUpdate_runs_without_auto_refresh:
  "\<not> UseDnsForFetchingServiceUrls cfg0 \<and> \<not> AutoUpdateDnsServiceUrls cfg0
   \<and> autoUpdateServiceUrls env0 2 sys0 =
     Inr (sys0\<lparr>serviceUrls := [''http://192.168.20.236:9001/eureka'', ''http://192.168.20.237:9001/eureka''],
              calls := 2,
              trace := [EvResolve ''zone-cn-hz-1'', EvSleep 60, EvLog ''AutoUpdateDnsServiceUrls... ok'',
                        EvResolve ''zone-cn-hz-1'', EvSleep 60, EvLog ''AutoUpdateDnsServiceUrls... ok'']\<rparr>)"
  by (simp add: autoUpdateServiceUrls_def numeral_2_eq_2 getServiceUrlsWithZones_def sys0_def cfg0_def
      env0_def emit_def called_def sleep_def)

section \<open>Fields untouched by the endpoint selection\<close>

lemma getServiceUrlsWithZones_frame:
  "getServiceUrlsWithZones E s = Inr (r, s') \<Longrightarrow>
     config s' = config s \<and> instance_vo s' = instance_vo s \<and> registryApps s' = registryApps s
     \<and> pickServerUrlIdx s' = pickServerUrlIdx s"
  by (auto simp: getServiceUrlsWithZones_def split: option.splits dest: zonesLoop_frame)

lemma pickFromPool_frame:
  "pickFromPool s = Inr (r, s') \<Longrightarrow>
     config s' = config s \<and> instance_vo s' = instance_vo s \<and> registryApps s' = registryApps s
     \<and> serviceUrls s' = serviceUrls s \<and> (r \<noteq> None \<longrightarrow> serviceUrls s' \<noteq> [])"
  by (auto simp: pickFromPool_def Let_def split_beta split: if_splits sum.splits)

lemma pickServiceUrl_frame:
  "pickServiceUrl E s = Inr (r, s') \<Longrightarrow>
     config s' = config s \<and> instance_vo s' = instance_vo s \<and> registryApps s' = registryApps s
     \<and> (r \<noteq> None \<longrightarrow> serviceUrls s' \<noteq> [])"
  by (auto simp: pickServiceUrl_def split: if_splits sum.splits option.splits prod.splits
      dest!: getServiceUrlsWithZones_frame pickFromPool_frame)

lemma currentServerUrl_Some: "currentServerUrl t = Inr (Some url) \<Longrightarrow> serviceUrls t \<noteq> []"
  by (auto simp: currentServerUrl_def Let_def split: if_splits)

lemma currentServerUrl_None: "currentServerUrl t = Inr None \<Longrightarrow> serviceUrls t = []"
  by (auto simp: currentServerUrl_def Let_def split: if_splits sum.splits)

lemma Api_frame:
  "Api E s = Inr (r, s') \<Longrightarrow>
     config s' = config s \<and> instance_vo s' = instance_vo s \<and> registryApps s' = registryApps s
     \<and> (\<not> isl r \<longrightarrow> serviceUrls s' \<noteq> [])"
  by (auto simp: Api_def pickEurekaServerApi_def
      split: sum.splits option.splits prod.splits
      dest!: pickServiceUrl_frame currentServerUrl_Some)

lemma Api_nonempty:
  assumes "serviceUrls s \<noteq> []" and "Api E s = Inr (r, s')"
  shows "s' = s \<and> (\<exists>url. r = Inr url \<and> currentServerUrl s = Inr (Some url))"
  using assms
  by (auto simp: Api_def pickEurekaServerApi_def split: sum.splits option.splits
      dest: currentServerUrl_None)

section \<open>Properties of the registry refresh\<close>

lemma buildRegistry_dom_aux:
  "dom (fold (\<lambda>app m. m(Name app \<mapsto> app)) apps m0) = dom m0 \<union> Name ` set apps"
  by (induction apps arbitrary: m0) auto

lemma buildRegistry_entry_aux:
  "fold (\<lambda>app m. m(Name app \<mapsto> app)) apps m0 key = Some a \<Longrightarrow>
     m0 key = Some a \<or> (a \<in> set apps \<and> Name a = key)"
proof (induction apps arbitrary: m0)
  case Nil
  then show ?case by simp
next
  case (Cons x xs)
  from Cons.prems have "fold (\<lambda>app m. m(Name app \<mapsto> app)) xs (m0(Name x \<mapsto> x)) key = Some a"
    by (simp only: fold_simps)
  from Cons.IH [OF this] show ?case by (auto split: if_splits)
qed

lemma buildRegistry_absent_aux:
  "key \<notin> Name ` set apps \<Longrightarrow> fold (\<lambda>app m. m(Name app \<mapsto> app)) apps m0 key = m0 key"
  by (induction apps arbitrary: m0) auto

lemma buildRegistry_distinct_aux:
  "distinct (map Name apps) \<Longrightarrow> a \<in> set apps \<Longrightarrow>
     fold (\<lambda>app m. m(Name app \<mapsto> app)) apps m0 (Name a) = Some a"
  by (induction apps arbitrary: m0) (auto simp: buildRegistry_absent_aux)

lemma dom_buildRegistry: "dom (buildRegistry apps) = Name ` set apps"
  by (simp add: buildRegistry_def buildRegistry_dom_aux)

lemma buildRegistry_entry:
  "buildRegistry apps key = Some a \<Longrightarrow> a \<in> set apps \<and> Name a = key"
  using buildRegistry_entry_aux [of apps Map.empty key a] by (simp add: buildRegistry_def)

lemma buildRegistry_distinct:
  "distinct (map Name apps) \<Longrightarrow> a \<in> set apps \<Longrightarrow> buildRegistry apps (Name a) = Some a"
  by (simp add: buildRegistry_def buildRegistry_distinct_aux)

text \<open>
  Claim C6. If \<open>fetchRegistry\<close> fails, for want of a server handle or because the
  query returns an error, the registry cache is what it was before the call. If it
  succeeds, the cache is a fresh map built from the queried applications alone: its
  keys are their names, every entry is a queried application under its own name, each
  queried application is there when the names are distinct, and nothing of the
  previous cache remains.
\<close>

theorem fetchRegistry_cache:
  assumes "fetchRegistry E s = Inr (r, s')"
  shows "(\<forall>err. r = Inl err \<longrightarrow> registryApps s' = registryApps s)
       \<and> (\<forall>m. r = Inr m \<longrightarrow>
            m = registryApps s' \<and>
            (\<exists>api k apps. QueryAllInstances E k api = Inr apps
               \<and> registryApps s' = buildRegistry apps
               \<and> dom (registryApps s') = Name ` set apps
               \<and> (\<forall>key app. registryApps s' key = Some app \<longrightarrow> app \<in> set apps \<and> Name app = key)
               \<and> (distinct (map Name apps) \<longrightarrow> (\<forall>app\<in>set apps. registryApps s' (Name app) = Some app))))"
proof (cases "Api E s")
  case (Inl p)
  with assms show ?thesis by (simp add: fetchRegistry_def)
next
  case (Inr a)
  obtain h s1 where a: "a = (h, s1)" by (cases a)
  from Inr a have fr: "registryApps s1 = registryApps s" by (auto dest: Api_frame)
  show ?thesis
  proof (cases h)
    case (Inl err)
    with assms Inr a fr show ?thesis by (auto simp: fetchRegistry_def)
  next
    case api: (Inr api)
    show ?thesis
    proof (cases "QueryAllInstances E (calls s1) api")
      case (Inl err)
      with assms Inr a api fr show ?thesis by (auto simp: fetchRegistry_def)
    next
      case q: (Inr apps)
      with assms Inr a api have r: "r = Inr (buildRegistry apps)"
        and s': "registryApps s' = buildRegistry apps"
        by (auto simp: fetchRegistry_def Let_def)
      have "\<forall>key app. buildRegistry apps key = Some app \<longrightarrow> app \<in> set apps \<and> Name app = key"
        using buildRegistry_entry by blast
      moreover have "distinct (map Name apps) \<longrightarrow> (\<forall>app\<in>set apps. buildRegistry apps (Name app) = Some app)"
        using buildRegistry_distinct by blast
      ultimately have "\<exists>api k apps. QueryAllInstances E k api = Inr apps
               \<and> registryApps s' = buildRegistry apps
               \<and> dom (registryApps s') = Name ` set apps
               \<and> (\<forall>key app. registryApps s' key = Some app \<longrightarrow> app \<in> set apps \<and> Name app = key)
               \<and> (distinct (map Name apps) \<longrightarrow> (\<forall>app\<in>set apps. registryApps s' (Name app) = Some app))"
        using q dom_buildRegistry [of apps] unfolding s'
        by (intro exI [of _ api] exI [of _ "calls s1"] exI [of _ apps]) simp
      with r s' show ?thesis by simp
    qed
  qed
qed

theorem fetchRegistry_cache_witness:
  "(\<exists>s'. fetchRegistry env0 sys_stale = Inr (Inr (registryApps s'), s')
       \<and> dom (registryApps s') = {''APP-A'', ''APP-B''}
       \<and> registryApps sys_stale ''APP-OLD'' \<noteq> None)
   \<and> (\<exists>s'. fetchRegistry env_query_down sys_stale = Inr (Inl ''connection refused'', s')
       \<and> registryApps s' = registryApps sys_stale)"
proof -
  obtain s1 where e1: "fetchRegistry env0 sys_stale = Inr (Inr (registryApps s1), s1)"
    and a1: "QueryAllInstances env0 (calls sys_stale) ''http://a/eureka'' =
               Inr [\<lparr>Name = ''APP-A'', Payload = ''a''\<rparr>, \<lparr>Name = ''APP-B'', Payload = ''b''\<rparr>]"
    and b1: "registryApps s1 = buildRegistry [\<lparr>Name = ''APP-A'', Payload = ''a''\<rparr>, \<lparr>Name = ''APP-B'', Payload = ''b''\<rparr>]"
    by (simp add: fetchRegistry_def Api_def pickEurekaServerApi_def currentServerUrl_def Let_def
        index_def go_rem_def sys_stale_def sys0_def env0_def)
  from fetchRegistry_cache [OF e1]
  obtain api k apps where "QueryAllInstances env0 k api = Inr apps"
    "dom (registryApps s1) = Name ` set apps"
    by blast
  then have d: "dom (registryApps s1) = {''APP-A'', ''APP-B''}"
    by (auto simp: env0_def)
  obtain s2 where e2: "fetchRegistry env_query_down sys_stale = Inr (Inl ''connection refused'', s2)"
    by (simp add: fetchRegistry_def Api_def pickEurekaServerApi_def currentServerUrl_def Let_def
        index_def go_rem_def sys_stale_def sys0_def env0_def env_query_down_def)
  from fetchRegistry_cache [OF e2] have u: "registryApps s2 = registryApps sys_stale" by blast
  have "registryApps sys_stale ''APP-OLD'' \<noteq> None" by (simp add: sys_stale_def sys0_def)
  with e1 d e2 u show ?thesis by blast
qed

section \<open>Properties of the registration fan-out and of a missing descriptor\<close>

lemma registerWithAllLoop_fields:
  "pickServerUrlIdx (registerWithAllLoop n s) = pickServerUrlIdx s + of_nat n
   \<and> trace (registerWithAllLoop n s) = trace s @ concat (replicate n [EvGo ''registerWithEureka'', EvInc])
   \<and> serviceUrls (registerWithAllLoop n s) = serviceUrls s
   \<and> config (registerWithAllLoop n s) = config s
   \<and> instance_vo (registerWithAllLoop n s) = instance_vo s
   \<and> registryApps (registerWithAllLoop n s) = registryApps s
   \<and> calls (registerWithAllLoop n s) = calls s"
  by (induction n arbitrary: s) (simp_all add: ac_simps)

lemma sint_add_of_nat:
  fixes c :: int32
  assumes "sint c + int n < 2 ^ 31"
  shows "sint (c + of_nat n) = sint c + int n"
proof -
  have lo: "- (2 ^ 31) \<le> sint c" using sint_ge [of c] by simp
  have "c + of_nat n = word_of_int (sint c + int n)" by simp
  then have "sint (c + of_nat n) = signed_take_bit 31 (sint c + int n)"
    by (simp only: sint_sbintrunc') simp
  also have "\<dots> = sint c + int n"
    using assms lo by (intro signed_take_bit_int_eq_self) simp_all
  finally show ?thesis .
qed

text \<open>
  Claim C8. \<open>registerWithAllEureka\<close> launches one \<open>registerWithEureka\<close> per endpoint of
  the pool and advances the cursor once after each launch, so that on return the
  cursor is its old value plus the pool length: as 32-bit values always, and as
  integers whenever that sum still fits in an \<open>int32\<close>.
\<close>

theorem registerWithAllEureka_cursor:
  "pickServerUrlIdx (registerWithAllEureka s) = pickServerUrlIdx s + of_nat (length (serviceUrls s))
   \<and> trace (registerWithAllEureka s) =
       trace s @ concat (replicate (length (serviceUrls s)) [EvGo ''registerWithEureka'', EvInc])
   \<and> serviceUrls (registerWithAllEureka s) = serviceUrls s
   \<and> (sint (pickServerUrlIdx s) + int (length (serviceUrls s)) < 2 ^ 31 \<longrightarrow>
        sint (pickServerUrlIdx (registerWithAllEureka s)) =
          sint (pickServerUrlIdx s) + int (length (serviceUrls s)))"
  by (simp add: registerWithAllEureka_def registerWithAllLoop_fields sint_add_of_nat)

theorem registerWithAllEureka_cursor_witness:
  "sint (pickServerUrlIdx (registerWithAllEureka pool3)) = 3
   \<and> trace (registerWithAllEureka pool3) =
       [EvGo ''registerWithEureka'', EvInc, EvGo ''registerWithEureka'', EvInc,
        EvGo ''registerWithEureka'', EvInc]"
proof -
  have h: "sint (pickServerUrlIdx pool3) + int (length (serviceUrls pool3)) < 2 ^ 31"
    by (simp add: pool3_def)
  from registerWithAllEureka_cursor [of pool3] h
  have "sint (pickServerUrlIdx (registerWithAllEureka pool3)) =
          sint (pickServerUrlIdx pool3) + int (length (serviceUrls pool3))"
    and "trace (registerWithAllEureka pool3) =
       trace pool3 @ concat (replicate (length (serviceUrls pool3)) [EvGo ''registerWithEureka'', EvInc])"
    by blast+
  then show ?thesis by (simp add: pool3_def numeral_3_eq_3)
qed

text \<open>
  Claim C9. When \<open>registerWithEureka\<close> reaches its loop (self-registration is enabled)
  and no instance descriptor is set, it logs the error and returns at once: no sleep,
  no retry, no register call and no status update; nothing but the trace changes.
\<close>

theorem registerWithEureka_nil_instance:
  assumes "config s = Some cfg" and "RegisterWithEureka cfg" and "instance_vo s = None"
  shows "registerWithEureka E s =
           Some (Inr (emit [EvCall ''registerWithEureka'', EvLog ''Eureka instance can't be nil''] s))"
  using assms
  by (simp add: registerWithEureka_def Let_def registerLoop.simps registerAttempt_def emit_def)

theorem registerWithEureka_nil_instance_witness:
  "registerWithEureka env0 sys_nil_instance =
     Some (Inr (sys_nil_instance\<lparr>trace := [EvCall ''registerWithEureka'', EvLog ''Eureka instance can't be nil'']\<rparr>))"
proof -
  have "config sys_nil_instance = Some cfg0" "RegisterWithEureka cfg0" "instance_vo sys_nil_instance = None"
    by (simp_all add: sys_nil_instance_def sys0_def cfg0_def)
  from registerWithEureka_nil_instance [OF this, of env0]
  show ?thesis by (simp add: emit_def sys_nil_instance_def sys0_def)
qed

section \<open>Properties of the shutdown\<close>

lemma noLogs_append [simp]: "noLogs (xs @ ys) = noLogs xs @ noLogs ys"
  by (simp add: noLogs_def)

lemma noLogs_simps [simp]:
  "noLogs [] = []"
  "noLogs (ev # evs) = (if isLog ev then noLogs evs else ev # noLogs evs)"
  by (simp_all add: noLogs_def)

lemma Api_current:
  "currentServerUrl s = Inr (Some url) \<Longrightarrow> Api E s = Inr (Inr url, s)"
  by (simp add: Api_def pickEurekaServerApi_def)

lemma currentServerUrl_emit [simp]: "currentServerUrl (emit evs s) = currentServerUrl s"
  by (simp add: currentServerUrl_def)

lemma DeRegisterInstance_run:
  assumes "serviceUrls s \<noteq> []" and "instance_vo s = Some vo"
    and "0 \<le> sint (pickServerUrlIdx s)"
  shows "\<exists>evs. DeRegisterInstance E s = Inr (emit evs (called s))
           \<and> noLogs evs = [EvDeRegister (serviceUrls s !
                 (nat (sint (pickServerUrlIdx s)) mod length (serviceUrls s)))]"
proof -
  let ?url = "serviceUrls s ! (nat (sint (pickServerUrlIdx s)) mod length (serviceUrls s))"
  let ?s0 = "emit [EvLog ''Receive exit signal, client instance going to de-register, instanceId=%s.''] s"
  have "currentServerUrl ?s0 = Inr (Some ?url)"
    using currentServerUrl_in_range [OF assms(1) assms(3)] by simp
  then have api: "Api E ?s0 = Inr (Inr ?url, ?s0)" by (rule Api_current)
  show ?thesis
  proof (cases "DeRegisterInstance_api E (calls s) ?url (App vo) (InstanceId vo)")
    case None
    show ?thesis
      by (rule exI [of _ "[EvLog ''Receive exit signal, client instance going to de-register, instanceId=%s.'',
                           EvDeRegister ?url, EvLog ''de-register %s success.'']"])
         (simp add: DeRegisterInstance_def assms(2) Let_def api None)
  next
    case (Some err)
    show ?thesis
      by (rule exI [of _ "[EvLog ''Receive exit signal, client instance going to de-register, instanceId=%s.'',
                           EvDeRegister ?url, EvLog ''Failed to de-register %s, err=%s'']"])
         (simp add: DeRegisterInstance_def assms(2) Let_def api Some)
  qed
qed


lemma sint_Inc:
  fixes c :: int32
  assumes "sint c + 1 < 2 ^ 31"
  shows "sint (c + 1) = sint c + 1"
  using sint_add_of_nat [of c 1] assms by simp

lemma deRegisterLoop_run:
  assumes "serviceUrls s \<noteq> []" and "instance_vo s = Some vo"
    and "0 \<le> sint (pickServerUrlIdx s)"
    and "sint (pickServerUrlIdx s) + int n < 2 ^ 31"
  shows "\<exists>s' evs. deRegisterLoop E n s = Inr s' \<and> trace s' = trace s @ evs
           \<and> noLogs evs = concat (map (\<lambda>i. [EvDeRegister (serviceUrls s !
                 ((nat (sint (pickServerUrlIdx s)) + i) mod length (serviceUrls s))), EvInc]) [0..<n])
           \<and> pickServerUrlIdx s' = pickServerUrlIdx s + of_nat n"
  using assms
proof (induction n arbitrary: s)
  case 0
  then show ?case by simp
next
  case (Suc n)
  let ?P = "serviceUrls s"
  let ?c = "pickServerUrlIdx s"
  from DeRegisterInstance_run [OF Suc.prems(1-3), of E]
  obtain evs1 where d: "DeRegisterInstance E s = Inr (emit evs1 (called s))"
    and n1: "noLogs evs1 = [EvDeRegister (?P ! (nat (sint ?c) mod length ?P))]"
    by blast
  let ?s2 = "snd (Inc (emit evs1 (called s)))"
  have c1: "sint (?c + 1) = sint ?c + 1"
    using Suc.prems(4) by (simp add: sint_Inc)
  then have c2: "sint (pickServerUrlIdx ?s2) = sint ?c + 1" by simp
  have p2: "serviceUrls ?s2 \<noteq> []" "instance_vo ?s2 = Some vo"
    "0 \<le> sint (pickServerUrlIdx ?s2)" "sint (pickServerUrlIdx ?s2) + int n < 2 ^ 31"
    using Suc.prems c2 by simp_all
  from Suc.IH [OF p2]
  obtain s' evs2 where l: "deRegisterLoop E n ?s2 = Inr s'"
    and t: "trace s' = trace ?s2 @ evs2"
    and n2: "noLogs evs2 = concat (map (\<lambda>i. [EvDeRegister (serviceUrls ?s2 !
                 ((nat (sint (pickServerUrlIdx ?s2)) + i) mod length (serviceUrls ?s2))), EvInc]) [0..<n])"
    and c': "pickServerUrlIdx s' = pickServerUrlIdx ?s2 + of_nat n"
    by blast
  have idx: "nat (sint ?c + 1) + i = nat (sint ?c) + Suc i" for i
    using Suc.prems(3) by simp
  have n2': "noLogs evs2 = concat (map (\<lambda>i. [EvDeRegister (?P ! ((nat (sint ?c) + Suc i) mod length ?P)), EvInc]) [0..<n])"
    using n2 by (simp add: c1 idx del: add_Suc_right)
  have split: "[0..<Suc n] = 0 # map Suc [0..<n]"
    by (simp add: upt_conv_Cons map_Suc_upt del: upt_Suc)
  show ?case
    by (intro exI [of _ s'] exI [of _ "evs1 @ [EvInc] @ evs2"])
       (simp add: d l t n1 n2' c' split comp_def del: upt_Suc)
qed

text \<open>
  Claim C7. On a termination signal, with an instance descriptor set and a cursor that
  is not negative and stays below \<open>2^31\<close> over the loop, the handler makes one
  de-registration call per endpoint of the pool, N in all, advancing the cursor by
  one after each, so that the calls go to \<open>pool[(cursor + i) mod N]\<close> for
  \<open>i = 0, ..., N-1\<close>; this holds whatever the calls answer, so a failed attempt does
  not stop the next; then the process exits with status 0.
\<close>

theorem handleSignal_deregisters_every_endpoint:
  assumes "sig = SIGINT \<or> sig = SIGKILL \<or> sig = SIGTERM"
    and "instance_vo s = Some vo"
    and "0 \<le> sint (pickServerUrlIdx s)"
    and "sint (pickServerUrlIdx s) + int (length (serviceUrls s)) < 2 ^ 31"
  shows "\<exists>s' evs. handleSignal E (sig # sigs) s = Inr (Some 0, s') \<and> trace s' = trace s @ evs
           \<and> noLogs evs = concat (map (\<lambda>i. [EvDeRegister (serviceUrls s !
                 ((nat (sint (pickServerUrlIdx s)) + i) mod length (serviceUrls s))), EvInc])
                 [0..<length (serviceUrls s)]) @ [EvExit 0]
           \<and> pickServerUrlIdx s' = pickServerUrlIdx s + of_nat (length (serviceUrls s))"
proof (cases "serviceUrls s = []")
  case True
  with assms(1) show ?thesis by auto
next
  case False
  from deRegisterLoop_run [OF False assms(2-4), of E]
  obtain s1 evs where l: "deRegisterLoop E (length (serviceUrls s)) s = Inr s1"
    and t: "trace s1 = trace s @ evs"
    and n: "noLogs evs = concat (map (\<lambda>i. [EvDeRegister (serviceUrls s !
                 ((nat (sint (pickServerUrlIdx s)) + i) mod length (serviceUrls s))), EvInc])
                 [0..<length (serviceUrls s)])"
    and c: "pickServerUrlIdx s1 = pickServerUrlIdx s + of_nat (length (serviceUrls s))"
    by blast
  show ?thesis
    using assms(1)
    by (intro exI [of _ "emit [EvExit 0] s1"] exI [of _ "evs @ [EvExit 0]"])
       (simp add: l t n c)
qed

theorem handleSignal_deregisters_every_endpoint_witness:
  "\<exists>s' evs. handleSignal env0 [SIGTERM] sys_shutdown = Inr (Some 0, s') \<and> trace s' = evs
     \<and> noLogs evs = [EvDeRegister ''http://b/eureka'', EvInc, EvDeRegister ''http://c/eureka'', EvInc,
                      EvDeRegister ''http://a/eureka'', EvInc, EvExit 0]
     \<and> pickServerUrlIdx s' = 7"
proof -
  have h: "SIGTERM = SIGINT \<or> SIGTERM = SIGKILL \<or> SIGTERM = SIGTERM"
    "instance_vo sys_shutdown = Some vo0"
    "0 \<le> sint (pickServerUrlIdx sys_shutdown)"
    "sint (pickServerUrlIdx sys_shutdown) + int (length (serviceUrls sys_shutdown)) < 2 ^ 31"
    by (simp_all add: sys_shutdown_def pool3_def)
  from handleSignal_deregisters_every_endpoint [OF h, of env0 "[]"]
  show ?thesis
    by (simp add: sys_shutdown_def pool3_def upt_rec)
qed

section \<open>Properties of the registration loop\<close>

lemma zonesLoop_trace:
  "zonesLoop E cfg zs err s = (r, s') \<Longrightarrow> \<exists>evs. trace s' = trace s @ evs"
proof (induction zs arbitrary: err s)
  case Nil
  then show ?case by simp
next
  case (Cons z zs)
  show ?case
  proof (cases "GetDiscoveryServiceUrls E (calls s) cfg z")
    case (Inl e)
    with Cons.prems have "zonesLoop E cfg zs (Some e)
        (emit [EvResolve z, EvLog ''Failed to boot eureka client, zone=%s, err=%s''] (called s)) = (r, s')"
      by simp
    from Cons.IH [OF this] show ?thesis by auto
  next
    case (Inr urls)
    with Cons.prems show ?thesis by auto
  qed
qed

lemma getServiceUrlsWithZones_trace:
  "getServiceUrlsWithZones E s = Inr (r, s') \<Longrightarrow> \<exists>evs. trace s' = trace s @ evs"
  by (auto simp: getServiceUrlsWithZones_def split: option.splits dest: zonesLoop_trace)

lemma pickFromPool_trace:
  "pickFromPool s = Inr (r, s') \<Longrightarrow> \<exists>evs. trace s' = trace s @ evs"
  by (auto simp: pickFromPool_def Let_def split_beta split: if_splits sum.splits)

lemma pickServiceUrl_trace:
  "pickServiceUrl E s = Inr (r, s') \<Longrightarrow> \<exists>evs. trace s' = trace s @ evs"
proof (cases "length (serviceUrls s) = 0")
  case False
  assume "pickServiceUrl E s = Inr (r, s')"
  with False show ?thesis by (simp add: pickServiceUrl_def pickFromPool_trace)
next
  case True
  assume a: "pickServiceUrl E s = Inr (r, s')"
  show ?thesis
  proof (cases "getServiceUrlsWithZones E s")
    case (Inl p)
    with a True show ?thesis by (simp add: pickServiceUrl_def)
  next
    case (Inr x)
    obtain err s1 where x: "x = (err, s1)" by (cases x)
    from Inr x obtain evs1 where t1: "trace s1 = trace s @ evs1"
      by (auto dest: getServiceUrlsWithZones_trace)
    show ?thesis
    proof (cases err)
      case (Some e)
      with a True Inr x t1 show ?thesis by (simp add: pickServiceUrl_def)
    next
      case None
      with a True Inr x have "pickFromPool s1 = Inr (r, s')" by (simp add: pickServiceUrl_def)
      then obtain evs2 where "trace s' = trace s1 @ evs2" by (auto dest: pickFromPool_trace)
      with t1 show ?thesis by simp
    qed
  qed
qed

lemma Api_trace:
  "Api E s = Inr (r, s') \<Longrightarrow> \<exists>evs. trace s' = trace s @ evs"
  by (auto simp: Api_def pickEurekaServerApi_def
      split: sum.splits option.splits prod.splits dest!: pickServiceUrl_trace)

lemma registerAttempt_Return:
  assumes "instance_vo s = Some vo" and "registerAttempt E s = Return (Inr s')"
  shows "\<exists>api k ident evs. trace s' = trace s @ evs @ [EvRegister api, EvUpdateStatus api]
           \<and> RegisterInstanceWithVo E k api vo = Inr ident
           \<and> UpdateInstanceStatus E (Suc k) api (App vo) ident STATUS_UP = None
           \<and> calls s' = Suc (Suc k)
           \<and> instance_vo s' = Some (vo\<lparr>InstanceId := ident\<rparr>)
           \<and> config s' = config s"
proof (cases "Api E s")
  case (Inl p)
  with assms show ?thesis by (simp add: registerAttempt_def)
next
  case (Inr a)
  obtain h s1 where a: "a = (h, s1)" by (cases a)
  from Inr a obtain evs where t1: "trace s1 = trace s @ evs" by (auto dest: Api_trace)
  from Inr a have f1: "config s1 = config s" by (auto dest: Api_frame)
  show ?thesis
  proof (cases h)
    case (Inl err)
    with assms Inr a show ?thesis by (simp add: registerAttempt_def)
  next
    case api: (Inr api)
    show ?thesis
    proof (cases "RegisterInstanceWithVo E (calls s1) api vo")
      case (Inl err)
      with assms Inr a api show ?thesis by (simp add: registerAttempt_def)
    next
      case reg: (Inr ident)
      show ?thesis
      proof (cases "UpdateInstanceStatus E (Suc (calls s1)) api (App vo) ident STATUS_UP")
        case (Some err)
        with assms Inr a api reg show ?thesis by (simp add: registerAttempt_def Let_def)
      next
        case None
        with assms Inr a api reg
        have s': "s' = emit [EvUpdateStatus api]
                    (called ((emit [EvRegister api] (called s1))\<lparr>instance_vo := Some (vo\<lparr>InstanceId := ident\<rparr>)\<rparr>))"
          by (simp add: registerAttempt_def Let_def)
        show ?thesis
          by (intro exI [of _ api] exI [of _ "calls s1"] exI [of _ ident] exI [of _ evs])
             (simp add: s' reg None t1 f1)
      qed
    qed
  qed
qed

lemma registerAttempt_Continue:
  assumes "instance_vo s = Some vo" and "registerAttempt E s = Continue s'"
  shows "(\<exists>evs. trace s' = trace s @ evs @ [EvSleep DEFAULT_SLEEP_INTERVALS])
       \<and> (\<exists>vo'. instance_vo s' = Some vo' \<and> App vo' = App vo)
       \<and> config s' = config s"
proof (cases "Api E s")
  case (Inl p)
  with assms show ?thesis by (simp add: registerAttempt_def)
next
  case (Inr a)
  obtain h s1 where a: "a = (h, s1)" by (cases a)
  from Inr a obtain evs where t1: "trace s1 = trace s @ evs" by (auto dest: Api_trace)
  from Inr a assms(1) have f1: "config s1 = config s" "instance_vo s1 = Some vo"
    by (auto dest: Api_frame)
  show ?thesis
  proof (cases h)
    case (Inl err)
    with assms Inr a t1 f1 show ?thesis by (auto simp: registerAttempt_def)
  next
    case api: (Inr api)
    show ?thesis
    proof (cases "RegisterInstanceWithVo E (calls s1) api vo")
      case (Inl err)
      with assms Inr a api t1 f1 show ?thesis by (auto simp: registerAttempt_def)
    next
      case reg: (Inr ident)
      show ?thesis
      proof (cases "UpdateInstanceStatus E (Suc (calls s1)) api (App vo) ident STATUS_UP")
        case (Some err)
        with assms Inr a api reg t1 f1 show ?thesis by (auto simp: registerAttempt_def Let_def)
      next
        case None
        with assms Inr a api reg show ?thesis by (simp add: registerAttempt_def Let_def)
      qed
    qed
  qed
qed

lemma attempts_loop:
  "attempts E n s = Some s' \<Longrightarrow> registerLoop E s = registerLoop E s'"
proof (induction n arbitrary: s)
  case 0
  then show ?case by simp
next
  case (Suc n)
  then obtain s1 where c: "registerAttempt E s = Continue s1" and a: "attempts E n s1 = Some s'"
    by (auto split: flow.splits)
  from c have "registerLoop E s = registerLoop E s1"
    by (subst registerLoop.simps) simp
  with Suc.IH [OF a] show ?case by simp
qed

lemma registerLoop_result:
  assumes "registerLoop E s = Some r"
  shows "\<exists>n s'. attempts E n s = Some s' \<and> registerAttempt E s' = Return r"
proof (rule registerLoop.raw_induct
    [OF _ assms, where P = "\<lambda>E s r. \<exists>n s'. attempts E n s = Some s' \<and> registerAttempt E s' = Return r"])
  fix loop :: "env \<Rightarrow> sys \<Rightarrow> (panic + sys) option" and E s r
  assume IH: "\<And>E s r. loop E s = Some r \<Longrightarrow>
                \<exists>n s'. attempts E n s = Some s' \<and> registerAttempt E s' = Return r"
    and eq: "(case registerAttempt E s of Return r \<Rightarrow> Some r | Continue s' \<Rightarrow> loop E s') = Some r"
  show "\<exists>n s'. attempts E n s = Some s' \<and> registerAttempt E s' = Return r"
  proof (cases "registerAttempt E s")
    case (Return r')
    with eq have "r' = r" by simp
    with Return have "attempts E 0 s = Some s \<and> registerAttempt E s = Return r" by simp
    then show ?thesis by blast
  next
    case (Continue s1)
    with eq have "loop E s1 = Some r" by simp
    from IH [OF this] obtain n s' where "attempts E n s1 = Some s'" "registerAttempt E s' = Return r"
      by blast
    with Continue have "attempts E (Suc n) s = Some s' \<and> registerAttempt E s' = Return r" by simp
    then show ?thesis by blast
  qed
qed

lemma attempts_inv:
  assumes "attempts E n s = Some s'" and "instance_vo s = Some vo"
  shows "(\<exists>evs. trace s' = trace s @ evs) \<and> (\<exists>vo'. instance_vo s' = Some vo' \<and> App vo' = App vo)
       \<and> config s' = config s"
  using assms
proof (induction n arbitrary: s vo)
  case 0
  then show ?case by simp
next
  case (Suc n)
  then obtain s1 where c: "registerAttempt E s = Continue s1" and a: "attempts E n s1 = Some s'"
    by (auto split: flow.splits)
  from registerAttempt_Continue [OF Suc.prems(2) c]
  obtain evs1 vo1 where 1: "trace s1 = trace s @ evs1" "instance_vo s1 = Some vo1" "App vo1 = App vo"
    "config s1 = config s"
    by auto
  from Suc.IH [OF a 1(2)] 1 show ?case by auto
qed


lemma registerAttempt_failures:
  assumes "instance_vo t = Some v"
  shows "(\<forall>err t1. Api E t = Inr (Inl err, t1) \<longrightarrow> (\<exists>t'. registerAttempt E t = Continue t'))
       \<and> (\<forall>api t1 err. Api E t = Inr (Inr api, t1)
             \<and> RegisterInstanceWithVo E (calls t1) api v = Inl err \<longrightarrow>
             (\<exists>t'. registerAttempt E t = Continue t'))
       \<and> (\<forall>api t1 ident err. Api E t = Inr (Inr api, t1)
             \<and> RegisterInstanceWithVo E (calls t1) api v = Inr ident
             \<and> UpdateInstanceStatus E (Suc (calls t1)) api (App v) ident STATUS_UP = Some err \<longrightarrow>
             (\<exists>t'. registerAttempt E t = Continue t'))"
  using assms by (simp add: registerAttempt_def Let_def)

text \<open>
  Claim C3. With self-registration enabled and a descriptor set, \<open>registerWithEureka\<close>
  returns normally only after a register call that succeeded, followed at once by a
  status update to UP that succeeded, and the descriptor then carries the identifier
  that this register call returned. A pass in which the handle, the register call or
  the status update fails ends with a sleep of the fixed interval and the loop starts
  again at its top. There is no cap: after any number of failed passes a pass that
  succeeds is still reached, and if every pass fails the function never returns.
\<close>

theorem registerWithEureka_retries_until_up:
  fixes E :: env and s :: sys
  defines "s0 \<equiv> emit [EvCall ''registerWithEureka''] s"
  assumes cfg: "config s = Some cfg" "RegisterWithEureka cfg" and vo: "instance_vo s = Some vo"
  shows "(\<forall>s'. registerWithEureka E s = Some (Inr s') \<longrightarrow>
            (\<exists>api k vo' ident evs.
                 trace s' = trace s @ evs @ [EvRegister api, EvUpdateStatus api]
               \<and> RegisterInstanceWithVo E k api vo' = Inr ident
               \<and> UpdateInstanceStatus E (Suc k) api (App vo') ident STATUS_UP = None
               \<and> calls s' = Suc (Suc k)
               \<and> instance_vo s' = Some (vo'\<lparr>InstanceId := ident\<rparr>) \<and> App vo' = App vo))
       \<and> (\<forall>t v. instance_vo t = Some v \<longrightarrow>
            (\<forall>err t1. Api E t = Inr (Inl err, t1) \<longrightarrow> (\<exists>t'. registerAttempt E t = Continue t'))
          \<and> (\<forall>api t1 err. Api E t = Inr (Inr api, t1)
                \<and> RegisterInstanceWithVo E (calls t1) api v = Inl err \<longrightarrow>
                (\<exists>t'. registerAttempt E t = Continue t'))
          \<and> (\<forall>api t1 ident err. Api E t = Inr (Inr api, t1)
                \<and> RegisterInstanceWithVo E (calls t1) api v = Inr ident
                \<and> UpdateInstanceStatus E (Suc (calls t1)) api (App v) ident STATUS_UP = Some err \<longrightarrow>
                (\<exists>t'. registerAttempt E t = Continue t')))
       \<and> (\<forall>t v t'. instance_vo t = Some v \<and> registerAttempt E t = Continue t' \<longrightarrow>
            (\<exists>evs. trace t' = trace t @ evs @ [EvSleep DEFAULT_SLEEP_INTERVALS])
          \<and> registerLoop E t = registerLoop E t')
       \<and> (\<forall>n s_n r. attempts E n s0 = Some s_n \<and> registerAttempt E s_n = Return r \<longrightarrow>
            registerWithEureka E s = Some r)
       \<and> ((\<forall>n. \<exists>s_n t. attempts E n s0 = Some s_n \<and> registerAttempt E s_n = Continue t) \<longrightarrow>
            registerWithEureka E s = None)"
proof -
  have run: "registerWithEureka E s = registerLoop E s0"
    using cfg by (simp add: registerWithEureka_def Let_def s0_def)
  have vo0: "instance_vo s0 = Some vo" using vo by (simp add: s0_def)
  have up: "\<exists>api k vo' ident evs.
                 trace s' = trace s @ evs @ [EvRegister api, EvUpdateStatus api]
               \<and> RegisterInstanceWithVo E k api vo' = Inr ident
               \<and> UpdateInstanceStatus E (Suc k) api (App vo') ident STATUS_UP = None
               \<and> calls s' = Suc (Suc k)
               \<and> instance_vo s' = Some (vo'\<lparr>InstanceId := ident\<rparr>) \<and> App vo' = App vo"
    if "registerWithEureka E s = Some (Inr s')" for s'
  proof -
    from that run have "registerLoop E s0 = Some (Inr s')" by simp
    from registerLoop_result [OF this]
    obtain n s_n where a: "attempts E n s0 = Some s_n" and r: "registerAttempt E s_n = Return (Inr s')"
      by blast
    from attempts_inv [OF a vo0] obtain evs0 vo' where
      i: "trace s_n = trace s0 @ evs0" "instance_vo s_n = Some vo'" "App vo' = App vo"
      by blast
    from registerAttempt_Return [OF i(2) r] obtain api k ident evs1 where
      f: "trace s' = trace s_n @ evs1 @ [EvRegister api, EvUpdateStatus api]"
         "RegisterInstanceWithVo E k api vo' = Inr ident"
         "UpdateInstanceStatus E (Suc k) api (App vo') ident STATUS_UP = None"
         "calls s' = Suc (Suc k)" "instance_vo s' = Some (vo'\<lparr>InstanceId := ident\<rparr>)"
      by blast
    show ?thesis
      using f i
      by - (rule exI [of _ api], rule exI [of _ k], rule exI [of _ vo'], rule exI [of _ ident],
            rule exI [of _ "[EvCall ''registerWithEureka''] @ evs0 @ evs1"], simp add: s0_def)
  qed
  have fails: "(\<forall>err t1. Api E t = Inr (Inl err, t1) \<longrightarrow> (\<exists>t'. registerAttempt E t = Continue t'))
          \<and> (\<forall>api t1 err. Api E t = Inr (Inr api, t1)
                \<and> RegisterInstanceWithVo E (calls t1) api v = Inl err \<longrightarrow>
                (\<exists>t'. registerAttempt E t = Continue t'))
          \<and> (\<forall>api t1 ident err. Api E t = Inr (Inr api, t1)
                \<and> RegisterInstanceWithVo E (calls t1) api v = Inr ident
                \<and> UpdateInstanceStatus E (Suc (calls t1)) api (App v) ident STATUS_UP = Some err \<longrightarrow>
                (\<exists>t'. registerAttempt E t = Continue t'))"
    if "instance_vo t = Some v" for t v
    using that by (rule registerAttempt_failures)
  have again: "(\<exists>evs. trace t' = trace t @ evs @ [EvSleep DEFAULT_SLEEP_INTERVALS])
          \<and> registerLoop E t = registerLoop E t'"
    if "instance_vo t = Some v \<and> registerAttempt E t = Continue t'" for t v t'
  proof -
    from that have "attempts E (Suc 0) t = Some t'" by simp
    then have "registerLoop E t = registerLoop E t'" by (rule attempts_loop)
    with registerAttempt_Continue [of t v E t'] that show ?thesis by blast
  qed
  have reach: "registerWithEureka E s = Some r"
    if "attempts E n s0 = Some s_n \<and> registerAttempt E s_n = Return r" for n s_n r
  proof -
    from that have "registerLoop E s0 = registerLoop E s_n" by (blast intro: attempts_loop)
    also have "\<dots> = Some r" using that by (subst registerLoop.simps) simp
    finally show ?thesis using run by simp
  qed
  have never: "registerWithEureka E s = None"
    if all: "\<forall>n. \<exists>s_n t. attempts E n s0 = Some s_n \<and> registerAttempt E s_n = Continue t"
  proof (rule ccontr)
    assume "registerWithEureka E s \<noteq> None"
    then obtain r where "registerLoop E s0 = Some r" using run by auto
    from registerLoop_result [OF this]
    obtain n s_n where "attempts E n s0 = Some s_n" "registerAttempt E s_n = Return r" by blast
    with all [rule_format, of n] show False by auto
  qed
  from up fails again reach never show ?thesis by blast
qed


lemma register_down_attempt:
  assumes "serviceUrls t = [''http://a/eureka'', ''http://b/eureka'']"
    and "pickServerUrlIdx t = 0" and "instance_vo t = Some vo0"
  shows "\<exists>t'. registerAttempt env_register_down t = Continue t'
           \<and> serviceUrls t' = [''http://a/eureka'', ''http://b/eureka'']
           \<and> pickServerUrlIdx t' = 0 \<and> instance_vo t' = Some vo0"
  using assms
  by (simp add: registerAttempt_def Api_def pickEurekaServerApi_def currentServerUrl_def Let_def
      index_def go_rem_def env_register_down_def env0_def)

lemma register_down_attempts:
  assumes "serviceUrls t = [''http://a/eureka'', ''http://b/eureka'']"
    and "pickServerUrlIdx t = 0" and "instance_vo t = Some vo0"
  shows "\<exists>t_n t'. attempts env_register_down n t = Some t_n
           \<and> registerAttempt env_register_down t_n = Continue t'"
  using assms
proof (induction n arbitrary: t)
  case 0
  with register_down_attempt [of t] show ?case by auto
next
  case (Suc n)
  from register_down_attempt [OF Suc.prems] obtain t1 where
    1: "registerAttempt env_register_down t = Continue t1"
       "serviceUrls t1 = [''http://a/eureka'', ''http://b/eureka'']"
       "pickServerUrlIdx t1 = 0" "instance_vo t1 = Some vo0"
    by blast
  from Suc.IH [OF 1(2-4)] 1(1) show ?case by simp
qed

theorem registerWithEureka_retries_until_up_witness:
  "(\<exists>s'. registerWithEureka env_flaky sys_ready = Some (Inr s')
      \<and> trace s' = [EvCall ''registerWithEureka'', EvRegister ''http://a/eureka'',
                     EvLog ''Client register failed, err=%s'', EvSleep 3,
                     EvRegister ''http://a/eureka'', EvUpdateStatus ''http://a/eureka'']
      \<and> instance_vo s' = Some (vo0\<lparr>InstanceId := ''host:app:9000''\<rparr>)
      \<and> (\<exists>api k vo' ident. RegisterInstanceWithVo env_flaky k api vo' = Inr ident
            \<and> UpdateInstanceStatus env_flaky (Suc k) api (App vo') ident STATUS_UP = None
            \<and> calls s' = Suc (Suc k) \<and> instance_vo s' = Some (vo'\<lparr>InstanceId := ident\<rparr>)))
   \<and> (\<exists>t' evs. registerAttempt env_flaky (emit [EvCall ''registerWithEureka''] sys_ready) = Continue t'
      \<and> trace t' = trace (emit [EvCall ''registerWithEureka''] sys_ready) @ evs @ [EvSleep DEFAULT_SLEEP_INTERVALS]
      \<and> registerLoop env_flaky (emit [EvCall ''registerWithEureka''] sys_ready) = registerLoop env_flaky t')
   \<and> registerWithEureka env_register_down sys_ready = None"
proof -
  have h: "config sys_ready = Some cfg0" "RegisterWithEureka cfg0" "instance_vo sys_ready = Some vo0"
    by (simp_all add: sys_ready_def sys0_def cfg0_def)
  note T = registerWithEureka_retries_until_up [OF h, of env_flaky]
  note up = T [THEN conjunct1, rule_format]
  note fails = T [THEN conjunct2, THEN conjunct1, rule_format, THEN conjunct2, THEN conjunct1, rule_format]
  note again = T [THEN conjunct2, THEN conjunct2, THEN conjunct1, rule_format]
  note reach = T [THEN conjunct2, THEN conjunct2, THEN conjunct2, THEN conjunct1, rule_format]
  let ?s0 = "emit [EvCall ''registerWithEureka''] sys_ready"
  let ?s1 = "sleep DEFAULT_SLEEP_INTERVALS
     (emit [EvRegister ''http://a/eureka'', EvLog ''Client register failed, err=%s''] (called ?s0))"
  let ?s2 = "emit [EvUpdateStatus ''http://a/eureka'']
     (called ((emit [EvRegister ''http://a/eureka''] (called ?s1))
        \<lparr>instance_vo := Some (vo0\<lparr>InstanceId := ''host:app:9000''\<rparr>)\<rparr>))"
  have v0: "instance_vo ?s0 = Some vo0" by (simp add: h)
  have api: "Api env_flaky ?s0 = Inr (Inr ''http://a/eureka'', ?s0)"
    by (simp add: Api_def pickEurekaServerApi_def currentServerUrl_def Let_def
        index_def go_rem_def sys_ready_def sys0_def)
  have down: "RegisterInstanceWithVo env_flaky (calls ?s0) ''http://a/eureka'' vo0 = Inl ''connection refused''"
    by (simp add: env_flaky_def sys_ready_def sys0_def)
  from fails [OF v0] api down obtain t' where c: "registerAttempt env_flaky ?s0 = Continue t'"
    by blast
  from again [of ?s0 vo0 t'] v0 c obtain evs where
    t': "trace t' = trace ?s0 @ evs @ [EvSleep DEFAULT_SLEEP_INTERVALS]"
    "registerLoop env_flaky ?s0 = registerLoop env_flaky t'"
    by blast
  have a1: "registerAttempt env_flaky ?s0 = Continue ?s1"
    by (simp add: registerAttempt_def Api_def pickEurekaServerApi_def currentServerUrl_def Let_def
        index_def go_rem_def env_flaky_def env0_def sys_ready_def sys0_def)
  have a2: "registerAttempt env_flaky ?s1 = Return (Inr ?s2)"
    by (simp add: registerAttempt_def Api_def pickEurekaServerApi_def currentServerUrl_def Let_def
        index_def go_rem_def env_flaky_def env0_def sys_ready_def sys0_def)
  from a1 have "attempts env_flaky (Suc 0) ?s0 = Some ?s1" by simp
  with a2 have "attempts env_flaky (Suc 0) ?s0 = Some ?s1
      \<and> registerAttempt env_flaky ?s1 = Return (Inr ?s2)"
    by (rule conjI [rotated])
  then have r: "registerWithEureka env_flaky sys_ready = Some (Inr ?s2)"
    by (rule reach)
  from up [OF r] have u: "\<exists>api k vo' ident. RegisterInstanceWithVo env_flaky k api vo' = Inr ident
            \<and> UpdateInstanceStatus env_flaky (Suc k) api (App vo') ident STATUS_UP = None
            \<and> calls ?s2 = Suc (Suc k) \<and> instance_vo ?s2 = Some (vo'\<lparr>InstanceId := ident\<rparr>)"
    by blast
  have t: "trace ?s2 = [EvCall ''registerWithEureka'', EvRegister ''http://a/eureka'',
                     EvLog ''Client register failed, err=%s'', EvSleep 3,
                     EvRegister ''http://a/eureka'', EvUpdateStatus ''http://a/eureka'']"
    "instance_vo ?s2 = Some (vo0\<lparr>InstanceId := ''host:app:9000''\<rparr>)"
    by (simp_all add: sys_ready_def sys0_def DEFAULT_SLEEP_INTERVALS_def)
  have inv: "serviceUrls ?s0 = [''http://a/eureka'', ''http://b/eureka'']"
    "pickServerUrlIdx ?s0 = 0" "instance_vo ?s0 = Some vo0"
    by (simp_all add: sys_ready_def sys0_def)
  have "\<forall>n. \<exists>s_n t. attempts env_register_down n ?s0 = Some s_n
           \<and> registerAttempt env_register_down s_n = Continue t"
    using register_down_attempts [OF inv] by blast
  with registerWithEureka_retries_until_up [OF h, of env_register_down]
  have "registerWithEureka env_register_down sys_ready = None" by blast
  with r t u c t' show ?thesis by blast
qed

section \<open>Properties of the heartbeat loop\<close>

lemma reregistered_append:
  "reregistered ok (xs @ ys) = (reregistered ok xs \<and> reregistered (fresh_after ok xs) ys)"
  by (induction ok xs rule: reregistered.induct) auto

lemma fresh_after_append:
  "fresh_after ok (xs @ ys) = fresh_after (fresh_after ok xs) ys"
  by (induction ok xs rule: fresh_after.induct) auto

lemma failedHeartbeats_append [simp]:
  "failedHeartbeats (xs @ ys) = failedHeartbeats xs + failedHeartbeats ys"
  by (induction xs rule: failedHeartbeats.induct) auto

lemma rotations_append [simp]: "rotations (xs @ ys) = rotations xs + rotations ys"
  by (induction xs rule: rotations.induct) auto

lemma quiet_events:
  "list_all quiet evs \<Longrightarrow>
     reregistered ok evs \<and> fresh_after ok evs = ok \<and> failedHeartbeats evs = 0 \<and> rotations evs = 0"
proof (induction evs)
  case Nil
  then show ?case by simp
next
  case (Cons ev evs)
  then show ?case by (cases ev) simp_all
qed

lemma registerAttempt_pool:
  assumes "serviceUrls t \<noteq> []"
    and "registerAttempt E t = Continue t' \<or> registerAttempt E t = Return (Inr t')"
  shows "\<exists>evs. trace t' = trace t @ evs \<and> list_all quiet evs
           \<and> serviceUrls t' = serviceUrls t \<and> pickServerUrlIdx t' = pickServerUrlIdx t"
proof (cases "instance_vo t")
  case None
  with assms(2) show ?thesis by (auto simp: registerAttempt_def)
next
  case (Some vo)
  show ?thesis
  proof (cases "Api E t")
    case (Inl p)
    with assms(2) Some show ?thesis by (simp add: registerAttempt_def)
  next
    case (Inr a)
    obtain h t1 where a: "a = (h, t1)" by (cases a)
    from Api_nonempty [OF assms(1)] Inr a obtain api where h: "h = Inr api" and t1: "t1 = t"
      by blast
    show ?thesis
    proof (cases "RegisterInstanceWithVo E (calls t) api vo")
      case (Inl err)
      with assms(2) Some Inr a h t1 show ?thesis
        by (auto simp: registerAttempt_def)
    next
      case reg: (Inr ident)
      show ?thesis
      proof (cases "UpdateInstanceStatus E (Suc (calls t)) api (App vo) ident STATUS_UP")
        case None
        with assms(2) Some Inr a h t1 reg show ?thesis
          by (auto simp: registerAttempt_def Let_def)
      next
        case (Some err)
        with assms(2) \<open>instance_vo t = Some vo\<close> Inr a h t1 reg show ?thesis
          by (auto simp: registerAttempt_def Let_def)
      qed
    qed
  qed
qed

lemma attempts_pool:
  assumes "attempts E n t = Some t'" and "serviceUrls t \<noteq> []"
  shows "\<exists>evs. trace t' = trace t @ evs \<and> list_all quiet evs
           \<and> serviceUrls t' = serviceUrls t \<and> pickServerUrlIdx t' = pickServerUrlIdx t"
  using assms
proof (induction n arbitrary: t)
  case 0
  then show ?case by simp
next
  case (Suc n)
  then obtain t1 where c: "registerAttempt E t = Continue t1" and a: "attempts E n t1 = Some t'"
    by (auto split: flow.splits)
  from registerAttempt_pool [OF Suc.prems(2), of E t1] c obtain evs1 where
    1: "trace t1 = trace t @ evs1" "list_all quiet evs1" "serviceUrls t1 = serviceUrls t"
       "pickServerUrlIdx t1 = pickServerUrlIdx t"
    by blast
  from Suc.prems(2) 1(3) have "serviceUrls t1 \<noteq> []" by simp
  from Suc.IH [OF a this] obtain evs2 where
    2: "trace t' = trace t1 @ evs2" "list_all quiet evs2" "serviceUrls t' = serviceUrls t1"
       "pickServerUrlIdx t' = pickServerUrlIdx t1"
    by blast
  show ?case
    by (rule exI [of _ "evs1 @ evs2"]) (simp add: 1 2)
qed

lemma registerWithEureka_pool:
  assumes "registerWithEureka E s = Some (Inr s')" and "serviceUrls s \<noteq> []"
  shows "\<exists>evs. trace s' = trace s @ EvCall ''registerWithEureka'' # evs \<and> list_all quiet evs
           \<and> serviceUrls s' = serviceUrls s \<and> pickServerUrlIdx s' = pickServerUrlIdx s"
proof (cases "config s")
  case None
  with assms(1) show ?thesis by (simp add: registerWithEureka_def Let_def)
next
  case (Some cfg)
  let ?s0 = "emit [EvCall ''registerWithEureka''] s"
  show ?thesis
  proof (cases "RegisterWithEureka cfg")
    case False
    with assms(1) Some have "s' = ?s0" by (simp add: registerWithEureka_def Let_def)
    then show ?thesis by simp
  next
    case True
    with assms(1) Some have "registerLoop E ?s0 = Some (Inr s')"
      by (simp add: registerWithEureka_def Let_def)
    from registerLoop_result [OF this] obtain n s_n where
      a: "attempts E n ?s0 = Some s_n" and r: "registerAttempt E s_n = Return (Inr s')"
      by blast
    have p0: "serviceUrls ?s0 \<noteq> []" using assms(2) by simp
    from attempts_pool [OF a p0] obtain evs1 where
      1: "trace s_n = trace ?s0 @ evs1" "list_all quiet evs1" "serviceUrls s_n = serviceUrls ?s0"
         "pickServerUrlIdx s_n = pickServerUrlIdx ?s0"
      by blast
    from p0 1(3) have "serviceUrls s_n \<noteq> []" by simp
    from registerAttempt_pool [OF this, of E s'] r obtain evs2 where
      2: "trace s' = trace s_n @ evs2" "list_all quiet evs2" "serviceUrls s' = serviceUrls s_n"
         "pickServerUrlIdx s' = pickServerUrlIdx s_n"
      by blast
    show ?thesis
      by (rule exI [of _ "evs1 @ evs2"]) (simp add: 1 2)
  qed
qed

lemma heartbeatTick_pool:
  assumes tick: "heartbeatTick E (s, latest) = Some (Inr (s', latest'))"
    and pool: "serviceUrls s \<noteq> []"
  shows "\<exists>reg url sent.
           trace s' = trace s @ reg @ EvHeartbeat url sent #
             (if sent then [EvLog ''Heartbeat url=%s, app=%s, instanceId=%s'']
              else [EvInc, EvLog ''Failed to send heartbeat, err=%s'', EvSleep DEFAULT_SLEEP_INTERVALS])
         \<and> (if latest \<noteq> pickServerUrlIdx s
              then \<exists>q. reg = EvCall ''registerWithEureka'' # q \<and> list_all quiet q
              else reg = [])
         \<and> pickServerUrlIdx s' = (if sent then pickServerUrlIdx s else pickServerUrlIdx s + 1)
         \<and> latest' = pickServerUrlIdx s
         \<and> serviceUrls s' = serviceUrls s"
proof -
  from tick obtain r s1 where api: "Api E s = Inr (r, s1)"
    by (cases "Api E s") (auto simp: heartbeatTick.simps)
  from Api_nonempty [OF pool api] obtain url where r: "r = Inr url" and s1: "s1 = s" by blast
  define mid where "mid =
     (if latest \<noteq> pickServerUrlIdx s
      then (case registerWithEureka E s of
              None \<Rightarrow> None
            | Some (Inl p) \<Rightarrow> Some (Inl p)
            | Some (Inr s2) \<Rightarrow> Some (Inr (s2, pickServerUrlIdx s2)))
      else Some (Inr (s, latest)))"
  have unfold: "heartbeatTick E (s, latest) =
     (case mid of
        None \<Rightarrow> None
      | Some (Inl p) \<Rightarrow> Some (Inl p)
      | Some (Inr (s2, latest2)) \<Rightarrow>
          (case instance_vo s2 of
             None \<Rightarrow> Some (Inl NilPointerDereference)
           | Some vo \<Rightarrow>
               (case SendHeartbeat E (calls s2) url (App vo) (InstanceId vo) of
                  Some err \<Rightarrow>
                    Some (Inr (sleep DEFAULT_SLEEP_INTERVALS
                            (emit [EvLog ''Failed to send heartbeat, err=%s'']
                              (snd (Inc (emit [EvHeartbeat url False] (called s2))))),
                          latest2))
                | None \<Rightarrow>
                    Some (Inr (emit [EvHeartbeat url True,
                                     EvLog ''Heartbeat url=%s, app=%s, instanceId=%s'']
                                 (called s2),
                               latest2)))))"
    by (simp add: heartbeatTick.simps api r s1 mid_def)
  from tick unfold obtain s2 l2 where mid: "mid = Some (Inr (s2, l2))"
    by (cases mid) (auto split: sum.splits)
  have reg: "\<exists>reg. trace s2 = trace s @ reg
         \<and> (if latest \<noteq> pickServerUrlIdx s
              then \<exists>q. reg = EvCall ''registerWithEureka'' # q \<and> list_all quiet q
              else reg = [])
         \<and> pickServerUrlIdx s2 = pickServerUrlIdx s \<and> l2 = pickServerUrlIdx s
         \<and> serviceUrls s2 = serviceUrls s"
  proof (cases "latest \<noteq> pickServerUrlIdx s")
    case False
    with mid show ?thesis by (simp add: mid_def)
  next
    case True
    with mid have rw: "registerWithEureka E s = Some (Inr s2)" and l2: "l2 = pickServerUrlIdx s2"
      by (auto simp: mid_def split: option.splits sum.splits)
    from registerWithEureka_pool [OF rw pool] l2 True show ?thesis by auto
  qed
  then obtain reg where reg: "trace s2 = trace s @ reg"
      "if latest \<noteq> pickServerUrlIdx s
       then \<exists>q. reg = EvCall ''registerWithEureka'' # q \<and> list_all quiet q
       else reg = []"
      "pickServerUrlIdx s2 = pickServerUrlIdx s" "l2 = pickServerUrlIdx s"
      "serviceUrls s2 = serviceUrls s"
    by blast
  from tick unfold mid obtain vo where vo: "instance_vo s2 = Some vo"
    by (cases "instance_vo s2") auto
  show ?thesis
  proof (cases "SendHeartbeat E (calls s2) url (App vo) (InstanceId vo)")
    case None
    with tick unfold mid vo have "s' = emit [EvHeartbeat url True,
        EvLog ''Heartbeat url=%s, app=%s, instanceId=%s''] (called s2)" and "latest' = l2"
      by simp_all
    with reg show ?thesis
      by - (rule exI [of _ reg], rule exI [of _ url], rule exI [of _ True], simp)
  next
    case (Some err)
    with tick unfold mid vo have "s' = sleep DEFAULT_SLEEP_INTERVALS
        (emit [EvLog ''Failed to send heartbeat, err=%s'']
          (snd (Inc (emit [EvHeartbeat url False] (called s2)))))" and "latest' = l2"
      by simp_all
    with reg show ?thesis
      by - (rule exI [of _ reg], rule exI [of _ url], rule exI [of _ False], simp)
  qed
qed


lemma heartbeatTick_step:
  assumes tick: "heartbeatTick E (s, latest) = Some (Inr (s', latest'))"
    and pool: "serviceUrls s \<noteq> []"
    and inv: "ok \<or> latest \<noteq> pickServerUrlIdx s"
  shows "\<exists>evs. trace s' = trace s @ evs \<and> reregistered ok evs
           \<and> (fresh_after ok evs \<or> latest' \<noteq> pickServerUrlIdx s')
           \<and> rotations evs = failedHeartbeats evs
           \<and> pickServerUrlIdx s' = pickServerUrlIdx s + of_nat (failedHeartbeats evs)
           \<and> serviceUrls s' = serviceUrls s"
proof -
  from heartbeatTick_pool [OF tick pool] obtain reg url sent where
    t: "trace s' = trace s @ reg @ EvHeartbeat url sent #
             (if sent then [EvLog ''Heartbeat url=%s, app=%s, instanceId=%s'']
              else [EvInc, EvLog ''Failed to send heartbeat, err=%s'', EvSleep DEFAULT_SLEEP_INTERVALS])"
    and reg: "if latest \<noteq> pickServerUrlIdx s
              then \<exists>q. reg = EvCall ''registerWithEureka'' # q \<and> list_all quiet q
              else reg = []"
    and c: "pickServerUrlIdx s' = (if sent then pickServerUrlIdx s else pickServerUrlIdx s + 1)"
    and l: "latest' = pickServerUrlIdx s"
    and p: "serviceUrls s' = serviceUrls s"
    by blast
  have r: "reregistered ok reg \<and> fresh_after ok reg \<and> failedHeartbeats reg = 0 \<and> rotations reg = 0"
  proof (cases "latest \<noteq> pickServerUrlIdx s")
    case True
    with reg obtain q where "reg = EvCall ''registerWithEureka'' # q" "list_all quiet q" by auto
    with quiet_events [of q True] show ?thesis by simp
  next
    case False
    with reg inv show ?thesis by simp
  qed
  let ?tail = "if sent then [EvLog ''Heartbeat url=%s, app=%s, instanceId=%s'']
               else [EvInc, EvLog ''Failed to send heartbeat, err=%s'', EvSleep DEFAULT_SLEEP_INTERVALS]"
  let ?evs = "reg @ EvHeartbeat url sent # ?tail"
  have "reregistered ok ?evs" using r by (simp add: reregistered_append)
  moreover have "fresh_after ok ?evs \<or> latest' \<noteq> pickServerUrlIdx s'"
    using r c l by (simp add: fresh_after_append)
  moreover have "rotations ?evs = failedHeartbeats ?evs" using r by simp
  moreover have "pickServerUrlIdx s' = pickServerUrlIdx s + of_nat (failedHeartbeats ?evs)"
    using r c by simp
  ultimately show ?thesis using t p by (intro exI [of _ ?evs]) simp
qed

lemma heartbeatTicks_pool:
  assumes "heartbeatTicks E n (s, latest) = Some (Inr (s', latest'))"
    and "serviceUrls s \<noteq> []"
    and "ok \<or> latest \<noteq> pickServerUrlIdx s"
  shows "\<exists>evs. trace s' = trace s @ evs \<and> reregistered ok evs
           \<and> (fresh_after ok evs \<or> latest' \<noteq> pickServerUrlIdx s')
           \<and> rotations evs = failedHeartbeats evs
           \<and> pickServerUrlIdx s' = pickServerUrlIdx s + of_nat (failedHeartbeats evs)
           \<and> serviceUrls s' = serviceUrls s"
  using assms
proof (induction n arbitrary: s latest ok)
  case 0
  then show ?case by simp
next
  case (Suc n)
  from Suc.prems(1) obtain s1 l1 where
    tick: "heartbeatTick E (s, latest) = Some (Inr (s1, l1))"
    and rest: "heartbeatTicks E n (s1, l1) = Some (Inr (s', latest'))"
    by (auto split: option.splits sum.splits)
  from heartbeatTick_step [OF tick Suc.prems(2,3)] obtain evs1 where
    1: "trace s1 = trace s @ evs1" "reregistered ok evs1"
       "fresh_after ok evs1 \<or> l1 \<noteq> pickServerUrlIdx s1"
       "rotations evs1 = failedHeartbeats evs1"
       "pickServerUrlIdx s1 = pickServerUrlIdx s + of_nat (failedHeartbeats evs1)"
       "serviceUrls s1 = serviceUrls s"
    by blast
  from Suc.prems(2) 1(6) have "serviceUrls s1 \<noteq> []" by simp
  from Suc.IH [OF rest this 1(3)] obtain evs2 where
    2: "trace s' = trace s1 @ evs2" "reregistered (fresh_after ok evs1) evs2"
       "fresh_after (fresh_after ok evs1) evs2 \<or> latest' \<noteq> pickServerUrlIdx s'"
       "rotations evs2 = failedHeartbeats evs2"
       "pickServerUrlIdx s' = pickServerUrlIdx s1 + of_nat (failedHeartbeats evs2)"
       "serviceUrls s' = serviceUrls s1"
    by blast
  show ?case
    using 1 2
    by - (rule exI [of _ "evs1 @ evs2"], simp add: reregistered_append fresh_after_append)
qed

text \<open>
  Claim C2. In the heartbeat loop, started with a populated pool: a tick sends one
  heartbeat; when that send fails the cursor goes up by exactly one (in 32-bit
  arithmetic) and otherwise it stays; when the cursor the tick observes differs from
  the recorded one, the tick first calls \<open>registerWithEureka\<close>, whose events all come
  before the heartbeat, and records the cursor. Hence over any number of ticks the
  cursor moves once per failed heartbeat and no heartbeat is sent after a move of the
  cursor without a call of \<open>registerWithEureka\<close> in between.
\<close>

theorem heartbeat_reregisters_after_rotation:
  assumes "serviceUrls s \<noteq> []"
  shows "(\<forall>t latest t' latest'.
            serviceUrls t \<noteq> [] \<and> heartbeatTick E (t, latest) = Some (Inr (t', latest')) \<longrightarrow>
            (\<exists>reg url sent.
               trace t' = trace t @ reg @ EvHeartbeat url sent #
                 (if sent then [EvLog ''Heartbeat url=%s, app=%s, instanceId=%s'']
                  else [EvInc, EvLog ''Failed to send heartbeat, err=%s'', EvSleep DEFAULT_SLEEP_INTERVALS])
             \<and> (if latest \<noteq> pickServerUrlIdx t
                  then \<exists>q. reg = EvCall ''registerWithEureka'' # q \<and> list_all quiet q
                  else reg = [])
             \<and> pickServerUrlIdx t' = (if sent then pickServerUrlIdx t else pickServerUrlIdx t + 1)
             \<and> latest' = pickServerUrlIdx t))
       \<and> (\<forall>n s' latest'. heartbeat E n s = Some (Inr (s', latest')) \<longrightarrow>
            (\<exists>evs. trace s' = trace s @ evs \<and> reregistered True evs
               \<and> rotations evs = failedHeartbeats evs
               \<and> pickServerUrlIdx s' = pickServerUrlIdx s + of_nat (failedHeartbeats evs)))"
proof -
  have T: "\<exists>reg url sent.
               trace t' = trace t @ reg @ EvHeartbeat url sent #
                 (if sent then [EvLog ''Heartbeat url=%s, app=%s, instanceId=%s'']
                  else [EvInc, EvLog ''Failed to send heartbeat, err=%s'', EvSleep DEFAULT_SLEEP_INTERVALS])
             \<and> (if latest \<noteq> pickServerUrlIdx t
                  then \<exists>q. reg = EvCall ''registerWithEureka'' # q \<and> list_all quiet q
                  else reg = [])
             \<and> pickServerUrlIdx t' = (if sent then pickServerUrlIdx t else pickServerUrlIdx t + 1)
             \<and> latest' = pickServerUrlIdx t"
    if "serviceUrls t \<noteq> [] \<and> heartbeatTick E (t, latest) = Some (Inr (t', latest'))"
    for t latest t' latest'
    using heartbeatTick_pool [of E t latest t' latest'] that by blast
  have R: "\<exists>evs. trace s' = trace s @ evs \<and> reregistered True evs
               \<and> rotations evs = failedHeartbeats evs
               \<and> pickServerUrlIdx s' = pickServerUrlIdx s + of_nat (failedHeartbeats evs)"
    if "heartbeat E n s = Some (Inr (s', latest'))" for n s' latest'
  proof -
    from that have "heartbeatTicks E n (s, 0) = Some (Inr (s', latest'))"
      by (auto simp: heartbeat_def split: option.splits if_splits)
    from heartbeatTicks_pool [OF this assms, of True] show ?thesis by blast
  qed
  from T R show ?thesis by blast
qed


lemma registerLoop_Return:
  "registerAttempt E s = Return r \<Longrightarrow> registerLoop E s = Some r"
  by (subst registerLoop.simps) simp

theorem heartbeat_reregisters_after_rotation_witness:
  "heartbeatTick env0 (sys_ready, 0) = Some (Inr (sys_rotated, 0))
   \<and> pickServerUrlIdx sys_rotated = pickServerUrlIdx sys_ready + 1
   \<and> (\<exists>t' q url sent rest. heartbeatTick env0 (sys_rotated, 0) = Some (Inr (t', 1))
        \<and> trace t' = trace sys_rotated @ (EvCall ''registerWithEureka'' # q) @ EvHeartbeat url sent # rest
        \<and> list_all quiet q)
   \<and> (\<exists>s'. heartbeat env0 2 sys_ready = Some (Inr (s', 1))
        \<and> trace s' = [EvHeartbeat ''http://a/eureka'' False, EvInc,
                       EvLog ''Failed to send heartbeat, err=%s'', EvSleep 3,
                       EvCall ''registerWithEureka'', EvRegister ''http://b/eureka'',
                       EvUpdateStatus ''http://b/eureka'', EvHeartbeat ''http://b/eureka'' True,
                       EvLog ''Heartbeat url=%s, app=%s, instanceId=%s'']
        \<and> reregistered True (trace s') \<and> pickServerUrlIdx s' = 1)"
proof -
  let ?s2 = "sys_ready\<lparr>instance_vo := Some (vo0\<lparr>InstanceId := ''host:app:9000''\<rparr>),
     pickServerUrlIdx := 1, calls := 3,
     trace := [EvHeartbeat ''http://a/eureka'' False, EvInc,
               EvLog ''Failed to send heartbeat, err=%s'', EvSleep 3,
               EvCall ''registerWithEureka'', EvRegister ''http://b/eureka'',
               EvUpdateStatus ''http://b/eureka'']\<rparr>"
  let ?s3 = "sys_ready\<lparr>instance_vo := Some (vo0\<lparr>InstanceId := ''host:app:9000''\<rparr>),
     pickServerUrlIdx := 1, calls := 4,
     trace := [EvHeartbeat ''http://a/eureka'' False, EvInc,
               EvLog ''Failed to send heartbeat, err=%s'', EvSleep 3,
               EvCall ''registerWithEureka'', EvRegister ''http://b/eureka'',
               EvUpdateStatus ''http://b/eureka'', EvHeartbeat ''http://b/eureka'' True,
               EvLog ''Heartbeat url=%s, app=%s, instanceId=%s'']\<rparr>"
  have pool: "serviceUrls sys_ready \<noteq> []" by (simp add: sys_ready_def)
  note T = heartbeat_reregisters_after_rotation [OF pool, of env0]
  note tickT = T [THEN conjunct1, rule_format]
  note runT = T [THEN conjunct2, rule_format]
  have tick1: "heartbeatTick env0 (sys_ready, 0) = Some (Inr (sys_rotated, 0))"
    by (simp add: heartbeatTick.simps Api_def pickEurekaServerApi_def currentServerUrl_def Let_def
        index_def go_rem_def env0_def sys_ready_def sys0_def Inc_def emit_def called_def sleep_def
        DEFAULT_SLEEP_INTERVALS_def sys_rotated_def)
  have "registerAttempt env0 (emit [EvCall ''registerWithEureka''] sys_rotated) = Return (Inr ?s2)"
    by (simp add: registerAttempt_def Api_def pickEurekaServerApi_def currentServerUrl_def Let_def
        index_def go_rem_def env0_def sys_ready_def sys0_def emit_def called_def sys_rotated_def)
  then have "registerLoop env0 (emit [EvCall ''registerWithEureka''] sys_rotated) = Some (Inr ?s2)"
    by (rule registerLoop_Return)
  then have reg: "registerWithEureka env0 sys_rotated = Some (Inr ?s2)"
    by (simp add: registerWithEureka_def Let_def sys_ready_def sys0_def cfg0_def sys_rotated_def)
  have api: "Api env0 sys_rotated = Inr (Inr ''http://b/eureka'', sys_rotated)"
    by (simp add: Api_def pickEurekaServerApi_def currentServerUrl_def Let_def
        index_def go_rem_def sys_ready_def sys_rotated_def)
  have hb: "SendHeartbeat env0 k url app ident = None" if "k \<noteq> 0" for k url app ident
    using that by (simp add: env0_def)
  have c1: "pickServerUrlIdx sys_rotated = 1" by (simp add: sys_rotated_def)
  have tick2: "heartbeatTick env0 (sys_rotated, 0) = Some (Inr (?s3, 1))"
    by (simp add: heartbeatTick.simps api reg hb c1; simp add: emit_def called_def)
  have p1: "serviceUrls sys_rotated \<noteq> []" by (simp add: sys_rotated_def sys_ready_def)
  from tickT [of sys_rotated 0 ?s3 1] p1 tick2 c1
  obtain q url sent rest where
    "trace ?s3 = trace sys_rotated @ (EvCall ''registerWithEureka'' # q) @ EvHeartbeat url sent # rest"
    "list_all quiet q"
    by auto
  with tick2 have second: "\<exists>t' q url sent rest. heartbeatTick env0 (sys_rotated, 0) = Some (Inr (t', 1))
        \<and> trace t' = trace sys_rotated @ (EvCall ''registerWithEureka'' # q) @ EvHeartbeat url sent # rest
        \<and> list_all quiet q"
    by blast
  have run: "heartbeat env0 2 sys_ready = Some (Inr (?s3, 1))"
    using tick1 tick2
    by (simp add: heartbeat_def numeral_2_eq_2) (simp add: sys_ready_def sys0_def cfg0_def)
  from runT [OF run]
  obtain evs where "trace ?s3 = trace sys_ready @ evs" "reregistered True evs" by blast
  then have "reregistered True (trace ?s3)" by (simp add: sys_ready_def sys0_def)
  with run have third: "\<exists>s'. heartbeat env0 2 sys_ready = Some (Inr (s', 1))
        \<and> trace s' = [EvHeartbeat ''http://a/eureka'' False, EvInc,
                       EvLog ''Failed to send heartbeat, err=%s'', EvSleep 3,
                       EvCall ''registerWithEureka'', EvRegister ''http://b/eureka'',
                       EvUpdateStatus ''http://b/eureka'', EvHeartbeat ''http://b/eureka'' True,
                       EvLog ''Heartbeat url=%s, app=%s, instanceId=%s'']
        \<and> reregistered True (trace s') \<and> pickServerUrlIdx s' = 1"
    by - (rule exI [of _ ?s3], simp)
  have "pickServerUrlIdx sys_rotated = pickServerUrlIdx sys_ready + 1"
    by (simp add: sys_rotated_def sys_ready_def sys0_def)
  with tick1 second third show ?thesis by blast
qed

end
